theory Spec2Isabelle
  imports Main "HOL-Library.Sublist" "HOL-Library.Multiset"
begin

section \<open>Data model of versionResolver.js\<close>

text \<open>
  A version record as the header comment of \<^verbatim>\<open>src/js/versionResolver.js\<close> describes it:
  \<^verbatim>\<open>{ version: string, publishDate: number, open: number, close: number, ... }\<close>.
  The three instants are integer milliseconds. The fields the module ignores are the
  extension part of the record scheme, so every function below is stated for records
  that carry an arbitrary further payload.
\<close>

record versionRecord =
  version :: string
  publishDate :: int
  "open" :: int
  close :: int

type_synonym 'a ver = "'a versionRecord_scheme"

text \<open>
  The \<^verbatim>\<open>versions\<close> argument: the function only asks \<^verbatim>\<open>Array.isArray(versions)\<close>,
  so every value that is not an array is one constructor.
\<close>

datatype 'a versions_arg = NotAnArray | JsArray "'a ver list"

text \<open>
  \<^verbatim>\<open>purchaseDate\<close> and \<^verbatim>\<open>travelDate\<close> are a number of milliseconds or a \<^verbatim>\<open>Date\<close>;
  \<^verbatim>\<open>x instanceof Date ? x.getTime() : x\<close> reads both as milliseconds.
\<close>

datatype instant = Millis int | DateObj int

fun toMillis :: "instant \<Rightarrow> int" where
  "toMillis (Millis n) = n"
| "toMillis (DateObj n) = n"

text \<open>
  The value found under \<^verbatim>\<open>options.inclusiveEnd\<close>. JavaScript does not enforce the
  documented type \<^verbatim>\<open>boolean\<close>, and the code treats the value in two ways (truthiness
  and \<^verbatim>\<open>!== false\<close>), so the values that these two tests tell apart are all here.
\<close>

datatype js_value =
  JUndefined | JNull | JBool bool | JNum int | JNaN | JStr string | JObject

fun truthy :: "js_value \<Rightarrow> bool" where
  "truthy JUndefined = False"
| "truthy JNull = False"
| "truthy (JBool b) = b"
| "truthy (JNum n) = (n \<noteq> 0)"
| "truthy JNaN = False"
| "truthy (JStr s) = (s \<noteq> [])"
| "truthy JObject = True"

text \<open>
  The \<^verbatim>\<open>options\<close> parameter once line 56 has bound it to an object: the argument was
  left out (the parameter default \<^verbatim>\<open>{}\<close> applies) or is an object; \<open>OptionsObject v\<close> is
  an object whose property \<^verbatim>\<open>inclusiveEnd\<close> reads as \<open>v\<close> (\<open>JUndefined\<close> when the object
  has no such property). A \<^verbatim>\<open>null\<close> argument never gets this far: destructuring it at
  line 57 raises, which \<open>bindOptions\<close> and \<open>resolveVersion_call\<close> below model.
\<close>

datatype resolveOptions = OptionsOmitted | OptionsObject js_value

fun inclusiveEndProp :: "resolveOptions \<Rightarrow> js_value" where
  "inclusiveEndProp OptionsOmitted = JUndefined"
| "inclusiveEndProp (OptionsObject v) = v"

text \<open>\<^verbatim>\<open>const { inclusiveEnd = true } = options\<close>: the default replaces \<^verbatim>\<open>undefined\<close> only.\<close>

definition destructureInclusiveEnd :: "resolveOptions \<Rightarrow> js_value" where
  "destructureInclusiveEnd opts =
     (if inclusiveEndProp opts = JUndefined then JBool True else inclusiveEndProp opts)"

datatype reason = OK | NO_AVAILABLE_VERSIONS | NO_VERSION_COVERS_TRAVEL_DATE

record normalizedOptions =
  inclusiveEnd :: bool

record 'a resolutionResult =
  match :: "'a ver option"
  reason :: reason
  candidates :: "'a ver list"
  available :: "'a ver list"
  futureCovering :: "'a ver list"
  purchaseDate :: int
  travelDate :: int
  options :: normalizedOptions
  explanation :: string

section \<open>Array.prototype.sort with a comparator\<close>

text \<open>
  \<^verbatim>\<open>[...versions].sort((a, b) => a.publishDate - b.publishDate)\<close>. The sort of the
  language is stable; it is modelled as the stable insertion sort under the comparator,
  inserting from the right end of the array so that equal elements keep their order.
\<close>

definition cmpPublishDate :: "'a ver \<Rightarrow> 'a ver \<Rightarrow> int" where
  "cmpPublishDate a b = publishDate a - publishDate b"

fun insertBy :: "('e \<Rightarrow> 'e \<Rightarrow> int) \<Rightarrow> 'e \<Rightarrow> 'e list \<Rightarrow> 'e list" where
  "insertBy cmp x [] = [x]"
| "insertBy cmp x (y # ys) =
     (if cmp x y \<le> 0 then x # y # ys else y # insertBy cmp x ys)"

definition array_sort :: "('e \<Rightarrow> 'e \<Rightarrow> int) \<Rightarrow> 'e list \<Rightarrow> 'e list" where
  "array_sort cmp xs = foldr (insertBy cmp) xs []"

section \<open>The explanation builder\<close>

text \<open>
  \<^verbatim>\<open>fmt(d) = new Date(d).toLocaleDateString()\<close> depends on the locale and the time zone
  of the host; it is a parameter \<open>fmt\<close> of the model. Template literals print a number
  in decimal. The Norwegian letters and the dash of the messages are written as their
  UTF-8 bytes.
\<close>

definition digitChar :: "nat \<Rightarrow> char" where
  "digitChar d = ''0123456789'' ! d"

fun showNat :: "nat \<Rightarrow> string" where
  "showNat n = (if n < 10 then [digitChar n] else showNat (n div 10) @ [digitChar (n mod 10)])"

declare showNat.simps [simp del]

definition showInt :: "int \<Rightarrow> string" where
  "showInt i = (if i < 0 then CHR ''-'' # showNat (nat (- i)) else showNat (nat i))"

definition aring :: string where
  "aring = [CHR 0xC3, CHR 0xA5]"

definition oslash :: string where
  "oslash = [CHR 0xC3, CHR 0xB8]"

definition endash :: string where
  "endash = [CHR 0xE2, CHR 0x80, CHR 0x93]"

definition kjopsdato :: string where
  "kjopsdato = ''kj'' @ oslash @ ''psdato''"

definition futureAsideNoCover :: "(int \<Rightarrow> string) \<Rightarrow> 'a ver \<Rightarrow> string" where
  "futureAsideNoCover fmt f =
     '' En nyere versjon ('' @ version f @ '', publisert '' @ fmt (publishDate f)
       @ '') ville ha dekket reisedatoen men var ikke tilgjengelig ved kj'' @ oslash @ ''p.''"

definition futureAsideOk :: "(int \<Rightarrow> string) \<Rightarrow> 'a ver \<Rightarrow> string" where
  "futureAsideOk fmt f =
     '' En senere versjon ('' @ version f @ '', publisert '' @ fmt (publishDate f)
       @ '') ville ogs'' @ aring @ '' dekke reisedatoen men var ikke publisert p'' @ aring
       @ '' '' @ kjopsdato @ ''.''"

definition buildExplanation ::
  "(int \<Rightarrow> string) \<Rightarrow> 'a ver option \<Rightarrow> 'a ver list \<Rightarrow> 'a ver list \<Rightarrow> 'a ver list
     \<Rightarrow> int \<Rightarrow> int \<Rightarrow> reason \<Rightarrow> js_value \<Rightarrow> string" where
  "buildExplanation fmt m cands avail future p t rsn inclEnd =
     (let pStr = fmt p;
          tStr = fmt t;
          endWord = (if truthy inclEnd then ''inkludert'' else ''eksklusiv'')
      in
      if rsn = NO_AVAILABLE_VERSIONS then
        ''Ingen versjoner var publisert p'' @ aring @ '' '' @ kjopsdato @ '' '' @ pStr
          @ ''. F'' @ oslash @ ''rste publisering er senere enn '' @ kjopsdato @ ''.''
      else if rsn = NO_VERSION_COVERS_TRAVEL_DATE then
        (let base = ''Det fantes '' @ showNat (length avail) @ '' publiserte versjon(er) p''
               @ aring @ '' '' @ kjopsdato @ '' '' @ pStr
               @ '', men ingen hadde en gyldighetsperiode som dekker reisedato '' @ tStr
               @ ''. (Sluttdato er '' @ endWord @ '').''
         in if length future > 0
            then base @ futureAsideNoCover fmt (future ! (length future - 1))
            else base)
      else
        (case m of
           None \<Rightarrow> ''''
         | Some mv \<Rightarrow>
             (let pub = fmt (publishDate mv);
                  opn = fmt (open mv);
                  cls = fmt (close mv);
                  expl = version mv @ '' fordi den var publisert ('' @ pub @ '' er f'' @ oslash
                    @ ''r '' @ kjopsdato @ '' '' @ pStr @ '') og reisedato '' @ tStr
                    @ '' ligger innenfor gyldighetsperioden '' @ opn @ '' '' @ endash @ '' ''
                    @ cls @ '' ('' @ endWord @ '' slutt).'';
                  expl2 = (if length cands > 1
                    then expl @ '' Det fantes '' @ showNat (length cands - 1)
                      @ '' annen/andre eldre kandidat(er) som ogs'' @ aring
                      @ '' dekket reisedatoen, men '' @ version mv
                      @ '' er nyere (senere publishDate).''
                    else expl)
              in if length future > 0
                 then expl2 @ futureAsideOk fmt (future ! (length future - 1))
                 else expl2)))"

section \<open>resolveVersion\<close>

text \<open>\<^verbatim>\<open>baseResult\<close> echoes its arguments and normalizes the option with \<^verbatim>\<open>!== false\<close>.\<close>

definition baseResult ::
  "'a ver option \<Rightarrow> 'a ver list \<Rightarrow> 'a ver list \<Rightarrow> 'a ver list \<Rightarrow> int \<Rightarrow> int
     \<Rightarrow> resolveOptions \<Rightarrow> reason \<Rightarrow> string \<Rightarrow> 'a resolutionResult" where
  "baseResult m cands avail future p t opts rsn expl =
     \<lparr> match = m, reason = rsn, candidates = cands, available = avail,
       futureCovering = future, purchaseDate = p, travelDate = t,
       options = \<lparr> inclusiveEnd = (inclusiveEndProp opts \<noteq> JBool False) \<rparr>,
       explanation = expl \<rparr>"

text \<open>
  \<^verbatim>\<open>inclusiveEnd ? (v.open <= t && t <= v.close) : (v.open <= t && t < v.close)\<close>:
  the conditional tests the truthiness of the destructured value.
\<close>

definition inRange :: "js_value \<Rightarrow> int \<Rightarrow> 'a ver \<Rightarrow> bool" where
  "inRange inclEnd t v =
     (if truthy inclEnd then open v \<le> t \<and> t \<le> close v else open v \<le> t \<and> t < close v)"

text \<open>
  The callback of \<^verbatim>\<open>candidates.reduce(..., null)\<close>; the accumulator starts as
  \<^verbatim>\<open>null\<close> (\<open>None\<close>) and \<^verbatim>\<open>!acc\<close> holds for \<^verbatim>\<open>null\<close> only.
\<close>

definition pickNewer :: "'a ver option \<Rightarrow> 'a ver \<Rightarrow> 'a ver option" where
  "pickNewer acc cur =
     (case acc of
        None \<Rightarrow> Some cur
      | Some a \<Rightarrow>
          if publishDate cur > publishDate a then Some cur
          else if publishDate cur = publishDate a \<and> open cur > open a then Some cur
          else Some a)"

definition resolveVersion ::
  "(int \<Rightarrow> string) \<Rightarrow> 'a versions_arg \<Rightarrow> instant \<Rightarrow> instant \<Rightarrow> resolveOptions
     \<Rightarrow> 'a resolutionResult" where
  "resolveVersion fmt versions purchase travel opts =
     (let inclEnd = destructureInclusiveEnd opts;
          p = toMillis purchase;
          t = toMillis travel
      in
      case versions of
        NotAnArray \<Rightarrow>
          baseResult None [] [] [] p t opts NO_AVAILABLE_VERSIONS
            (buildExplanation fmt (None :: 'a ver option) [] [] [] p t
               NO_AVAILABLE_VERSIONS inclEnd)
      | JsArray vs \<Rightarrow>
          if length vs = 0 then
            baseResult None [] [] [] p t opts NO_AVAILABLE_VERSIONS
              (buildExplanation fmt (None :: 'a ver option) [] [] [] p t
               NO_AVAILABLE_VERSIONS inclEnd)
          else
            (let sorted = array_sort cmpPublishDate vs;
                 avail = filter (\<lambda>v. publishDate v \<le> p) sorted;
                 future = filter (\<lambda>v. publishDate v > p \<and> inRange inclEnd t v) sorted
             in
             if length avail = 0 then
               baseResult None [] avail future p t opts NO_AVAILABLE_VERSIONS
                 (buildExplanation fmt None [] avail future p t NO_AVAILABLE_VERSIONS inclEnd)
             else
               (let cands = filter (inRange inclEnd t) avail
                in
                if length cands = 0 then
                  baseResult None cands avail future p t opts NO_VERSION_COVERS_TRAVEL_DATE
                    (buildExplanation fmt None cands avail future p t
                       NO_VERSION_COVERS_TRAVEL_DATE inclEnd)
                else
                  (let m = foldl pickNewer None cands
                   in baseResult m cands avail future p t opts OK
                        (buildExplanation fmt m cands avail future p t OK inclEnd)))))"

text \<open>\<^verbatim>\<open>resolveVersionName\<close>: \<^verbatim>\<open>r.match ? r.match.version : null\<close>.\<close>

definition resolveVersionName ::
  "(int \<Rightarrow> string) \<Rightarrow> 'a versions_arg \<Rightarrow> instant \<Rightarrow> instant \<Rightarrow> resolveOptions
     \<Rightarrow> string option" where
  "resolveVersionName fmt versions purchase travel opts =
     (case match (resolveVersion fmt versions purchase travel opts) of
        None \<Rightarrow> None
      | Some m \<Rightarrow> Some (version m))"

section \<open>The call, with the options as the caller passes them\<close>





section \<open>Auxiliary definitions\<close>

text \<open>
  The local \<^verbatim>\<open>sorted\<close> of \<^verbatim>\<open>resolveVersion\<close>. Where the function returns at its
  first guard (no array, or an array of no elements) the local is never computed; it is
  \<open>[]\<close> here.
\<close>

definition sortedVersions :: "'a versions_arg \<Rightarrow> 'a ver list" where
  "sortedVersions versions =
     (case versions of NotAnArray \<Rightarrow> [] | JsArray vs \<Rightarrow> array_sort cmpPublishDate vs)"

text \<open>
  A date formatter for concrete runs: it prints the milliseconds in decimal. The
  theorems hold for every formatter; this one only closes the concrete examples.
\<close>

definition fmtMillis :: "int \<Rightarrow> string" where
  "fmtMillis d = showInt d"

text \<open>The record of the scenarios A, B, C and E.\<close>

definition v1 :: versionRecord where
  "v1 = \<lparr> version = ''v1'', publishDate = 100, open = 100, close = 200 \<rparr>"

text \<open>The second record of scenario D, one that ties with it on publishDate, and a later one.\<close>

definition v2 :: versionRecord where
  "v2 = \<lparr> version = ''v2'', publishDate = 150, open = 100, close = 200 \<rparr>"

definition v2b :: versionRecord where
  "v2b = \<lparr> version = ''v2b'', publishDate = 150, open = 120, close = 200 \<rparr>"

definition v3 :: versionRecord where
  "v3 = \<lparr> version = ''v3'', publishDate = 170, open = 120, close = 180 \<rparr>"

text \<open>A record that ties with \<open>v2\<close> on both publishDate and open.\<close>

definition v2x :: versionRecord where
  "v2x = \<lparr> version = ''v2x'', publishDate = 150, open = 100, close = 300 \<rparr>"

text \<open>A record published and valid after the others.\<close>

definition v4 :: versionRecord where
  "v4 = \<lparr> version = ''v4'', publishDate = 300, open = 250, close = 400 \<rparr>"

text \<open>Second future records for the runs with two of them.\<close>

definition v3b :: versionRecord where
  "v3b = \<lparr> version = ''v3b'', publishDate = 180, open = 100, close = 200 \<rparr>"

definition v4w :: versionRecord where
  "v4w = \<lparr> version = ''v4w'', publishDate = 350, open = 280, close = 500 \<rparr>"

section \<open>The same function over a store\<close>

text \<open>
  To speak about mutation and freshness the arrays become objects of a store: an array
  is a reference to a list of references to version records. \<open>nextAddr\<close> is the next free
  address; allocation takes it and moves it up. Every address denotes some record
  (the function allocates no record and writes to none), arrays exist where
  \<open>arrays\<close> is defined.
\<close>

type_synonym addr = nat

record 'a store =
  objects :: "addr \<Rightarrow> 'a ver"
  arrays :: "addr \<Rightarrow> addr list option"
  nextAddr :: addr

datatype versions_ref = NotAnArrayRef | ArrayRef addr

text \<open>The elements of the array at a reference; \<open>[]\<close> stands in where there is no array.\<close>

definition elems :: "'a store \<Rightarrow> addr \<Rightarrow> addr list" where
  "elems s a = (case arrays s a of None \<Rightarrow> [] | Some rs \<Rightarrow> rs)"

text \<open>An array literal, the spread copy and \<^verbatim>\<open>filter\<close> each allocate a new array.\<close>

definition newArray :: "addr list \<Rightarrow> 'a store \<Rightarrow> addr \<times> 'a store" where
  "newArray rs s = (nextAddr s, s\<lparr> arrays := (arrays s)(nextAddr s \<mapsto> rs), nextAddr := Suc (nextAddr s) \<rparr>)"

definition filterArray :: "(addr \<Rightarrow> bool) \<Rightarrow> addr \<Rightarrow> 'a store \<Rightarrow> addr \<times> 'a store" where
  "filterArray P a s = newArray (filter P (elems s a)) s"

text \<open>\<^verbatim>\<open>sort\<close> reorders the array it is called on, in place.\<close>

definition sortInPlace :: "(addr \<Rightarrow> addr \<Rightarrow> int) \<Rightarrow> addr \<Rightarrow> 'a store \<Rightarrow> 'a store" where
  "sortInPlace cmp a s = s\<lparr> arrays := (arrays s)(a \<mapsto> array_sort cmp (elems s a)) \<rparr>"

record resultRefs =
  matchRef :: "addr option"
  reasonOut :: reason
  candidatesRef :: addr
  availableRef :: addr
  futureCoveringRef :: addr
  purchaseDateOut :: int
  travelDateOut :: int
  optionsOut :: normalizedOptions
  explanationOut :: string

definition baseResultRefs ::
  "addr option \<Rightarrow> addr \<Rightarrow> addr \<Rightarrow> addr \<Rightarrow> int \<Rightarrow> int \<Rightarrow> resolveOptions \<Rightarrow> reason \<Rightarrow> string
     \<Rightarrow> resultRefs" where
  "baseResultRefs m cands avail future p t opts rsn expl =
     \<lparr> matchRef = m, reasonOut = rsn, candidatesRef = cands, availableRef = avail,
       futureCoveringRef = future, purchaseDateOut = p, travelDateOut = t,
       optionsOut = \<lparr> inclusiveEnd = (inclusiveEndProp opts \<noteq> JBool False) \<rparr>,
       explanationOut = expl \<rparr>"

text \<open>\<^verbatim>\<open>buildExplanation\<close> only reads: it is the pure function on what the references hold.\<close>

definition explainRefs ::
  "(int \<Rightarrow> string) \<Rightarrow> 'a store \<Rightarrow> addr option \<Rightarrow> addr \<Rightarrow> addr \<Rightarrow> addr \<Rightarrow> int \<Rightarrow> int
     \<Rightarrow> reason \<Rightarrow> js_value \<Rightarrow> string" where
  "explainRefs fmt s m cands avail future p t rsn inclEnd =
     buildExplanation fmt (map_option (objects s) m) (map (objects s) (elems s cands))
       (map (objects s) (elems s avail)) (map (objects s) (elems s future)) p t rsn inclEnd"

text \<open>
  The first return statement: its call evaluates three array literals for
  \<^verbatim>\<open>baseResult\<close> and then three for \<^verbatim>\<open>buildExplanation\<close>.
\<close>

definition earlyReturn ::
  "(int \<Rightarrow> string) \<Rightarrow> int \<Rightarrow> int \<Rightarrow> resolveOptions \<Rightarrow> js_value \<Rightarrow> 'a store
     \<Rightarrow> resultRefs \<times> 'a store" where
  "earlyReturn fmt p t opts inclEnd s =
     (let (c1, s1) = newArray [] s;
          (a1, s2) = newArray [] s1;
          (f1, s3) = newArray [] s2;
          (c2, s4) = newArray [] s3;
          (a2, s5) = newArray [] s4;
          (f2, s6) = newArray [] s5
      in (baseResultRefs None c1 a1 f1 p t opts NO_AVAILABLE_VERSIONS
            (explainRefs fmt s6 None c2 a2 f2 p t NO_AVAILABLE_VERSIONS inclEnd), s6))"

definition resolveVersion_st ::
  "(int \<Rightarrow> string) \<Rightarrow> versions_ref \<Rightarrow> instant \<Rightarrow> instant \<Rightarrow> resolveOptions \<Rightarrow> 'a store
     \<Rightarrow> resultRefs \<times> 'a store" where
  "resolveVersion_st fmt versions purchase travel opts s =
     (let inclEnd = destructureInclusiveEnd opts;
          p = toMillis purchase;
          t = toMillis travel
      in
      case versions of
        NotAnArrayRef \<Rightarrow> earlyReturn fmt p t opts inclEnd s
      | ArrayRef v \<Rightarrow>
          if length (elems s v) = 0 then earlyReturn fmt p t opts inclEnd s
          else
            (let (sorted, s1) = newArray (elems s v) s;
                 s2 = sortInPlace (\<lambda>a b. cmpPublishDate (objects s1 a) (objects s1 b)) sorted s1;
                 (avail, s3) = filterArray (\<lambda>r. publishDate (objects s2 r) \<le> p) sorted s2;
                 (future, s4) =
                   filterArray (\<lambda>r. publishDate (objects s3 r) > p
                                  \<and> inRange inclEnd t (objects s3 r)) sorted s3
             in
             if length (elems s4 avail) = 0 then
               (let (c1, s5) = newArray [] s4;
                    (c2, s6) = newArray [] s5
                in (baseResultRefs None c1 avail future p t opts NO_AVAILABLE_VERSIONS
                      (explainRefs fmt s6 None c2 avail future p t NO_AVAILABLE_VERSIONS
                         inclEnd), s6))
             else
               (let (cands, s5) = filterArray (\<lambda>r. inRange inclEnd t (objects s4 r)) avail s4
                in
                if length (elems s5 cands) = 0 then
                  (baseResultRefs None cands avail future p t opts
                     NO_VERSION_COVERS_TRAVEL_DATE
                     (explainRefs fmt s5 None cands avail future p t
                        NO_VERSION_COVERS_TRAVEL_DATE inclEnd), s5)
                else
                  (let m = foldl (\<lambda>acc cur.
                             case acc of
                               None \<Rightarrow> Some cur
                             | Some a \<Rightarrow>
                                 if publishDate (objects s5 cur) > publishDate (objects s5 a)
                                 then Some cur
                                 else if publishDate (objects s5 cur) = publishDate (objects s5 a)
                                    \<and> open (objects s5 cur) > open (objects s5 a)
                                 then Some cur
                                 else Some a)
                           None (elems s5 cands)
                   in (baseResultRefs m cands avail future p t opts OK
                         (explainRefs fmt s5 m cands avail future p t OK inclEnd), s5)))))"


text \<open>What a result over the store denotes, and what a \<^verbatim>\<open>versions\<close> reference denotes.\<close>

definition absResult :: "'a store \<Rightarrow> resultRefs \<Rightarrow> 'a resolutionResult" where
  "absResult s r =
     \<lparr> match = map_option (objects s) (matchRef r), reason = reasonOut r,
       candidates = map (objects s) (elems s (candidatesRef r)),
       available = map (objects s) (elems s (availableRef r)),
       futureCovering = map (objects s) (elems s (futureCoveringRef r)),
       purchaseDate = purchaseDateOut r, travelDate = travelDateOut r,
       options = optionsOut r, explanation = explanationOut r \<rparr>"

definition absVersions :: "'a store \<Rightarrow> versions_ref \<Rightarrow> 'a versions_arg" where
  "absVersions s versions =
     (case versions of
        NotAnArrayRef \<Rightarrow> NotAnArray
      | ArrayRef v \<Rightarrow> (case arrays s v of None \<Rightarrow> NotAnArray
                      | Some rs \<Rightarrow> JsArray (map (objects s) rs)))"

text \<open>Addresses from \<open>nextAddr\<close> on hold no array yet.\<close>

definition wf_store :: "'a store \<Rightarrow> bool" where
  "wf_store s = (\<forall>a. nextAddr s \<le> a \<longrightarrow> arrays s a = None)"

text \<open>
  What a run may do to the store: it writes no record, never lowers \<open>nextAddr\<close>, and leaves
  every array below the old \<open>nextAddr\<close> and from the new one on as it was.
\<close>

definition preserves :: "'a store \<Rightarrow> 'a store \<Rightarrow> bool" where
  "preserves s s' \<longleftrightarrow>
     objects s' = objects s \<and> nextAddr s \<le> nextAddr s'
     \<and> (\<forall>a. a < nextAddr s \<or> nextAddr s' \<le> a \<longrightarrow> arrays s' a = arrays s a)"


text \<open>The facts about one run that the frame theorem is assembled from.\<close>

definition runFacts :: "'a store \<Rightarrow> resultRefs \<times> 'a store \<Rightarrow> bool" where
  "runFacts s out \<longleftrightarrow>
     (let r = fst out; s' = snd out
      in preserves s s' \<and> nextAddr s < nextAddr s'
         \<and> nextAddr s \<le> candidatesRef r \<and> candidatesRef r < nextAddr s'
         \<and> nextAddr s \<le> availableRef r \<and> availableRef r < nextAddr s'
         \<and> nextAddr s \<le> futureCoveringRef r \<and> futureCoveringRef r < nextAddr s'
         \<and> candidatesRef r \<noteq> availableRef r \<and> candidatesRef r \<noteq> futureCoveringRef r
         \<and> availableRef r \<noteq> futureCoveringRef r
         \<and> arrays s' (candidatesRef r) \<noteq> None
         \<and> arrays s' (availableRef r) \<noteq> None
         \<and> arrays s' (futureCoveringRef r) \<noteq> None)"


text \<open>A store with the array \<open>[v3, v2, v1]\<close> at address 5.\<close>

definition store0 :: "unit store" where
  "store0 = \<lparr> objects = (\<lambda>a. if a = 0 then v3 else if a = 1 then v2 else v1),
              arrays = (\<lambda>a. if a = 5 then Some [0, 1, 2] else None),
              nextAddr = 6 \<rparr>"


section \<open>Basic facts\<close>

lemmas eval_defs = resolveVersion_def baseResult_def array_sort_def cmpPublishDate_def
  destructureInclusiveEnd_def inRange_def pickNewer_def Let_def

lemma insertBy_cmpPublishDate:
  "insertBy cmpPublishDate x ys = insort_key publishDate x ys"
  by (induction ys) (auto simp: cmpPublishDate_def)

lemma array_sort_cmpPublishDate:
  "array_sort cmpPublishDate vs = sort_key publishDate vs"
  by (induction vs) (simp_all add: array_sort_def insertBy_cmpPublishDate)

lemma set_sortedVersions_JsArray: "set (sortedVersions (JsArray vs)) = set vs"
  by (simp add: sortedVersions_def array_sort_cmpPublishDate)

lemma sorted_sortedVersions: "sorted (map publishDate (sortedVersions versions))"
  by (simp add: sortedVersions_def array_sort_cmpPublishDate split: versions_arg.split)

text \<open>Each field of the result, read off the four return statements at once.\<close>

lemma available_resolveVersion:
  "available (resolveVersion fmt versions pd td opts) =
     filter (\<lambda>v. publishDate v \<le> toMillis pd) (sortedVersions versions)"
  by (simp add: resolveVersion_def baseResult_def sortedVersions_def Let_def array_sort_def
      split: versions_arg.split)

lemma candidates_resolveVersion:
  "candidates (resolveVersion fmt versions pd td opts) =
     filter (inRange (destructureInclusiveEnd opts) (toMillis td))
       (available (resolveVersion fmt versions pd td opts))"
  by (simp add: resolveVersion_def baseResult_def Let_def array_sort_def
      split: versions_arg.split)

lemma futureCovering_resolveVersion:
  "futureCovering (resolveVersion fmt versions pd td opts) =
     filter (\<lambda>v. publishDate v > toMillis pd
                \<and> inRange (destructureInclusiveEnd opts) (toMillis td) v)
       (sortedVersions versions)"
  by (simp add: resolveVersion_def baseResult_def sortedVersions_def Let_def array_sort_def
      split: versions_arg.split)

lemma match_resolveVersion:
  "match (resolveVersion fmt versions pd td opts) =
     foldl pickNewer None (candidates (resolveVersion fmt versions pd td opts))"
  by (simp add: resolveVersion_def baseResult_def Let_def array_sort_def
      split: versions_arg.split)

lemma reason_resolveVersion:
  "reason (resolveVersion fmt versions pd td opts) =
     (if available (resolveVersion fmt versions pd td opts) = [] then NO_AVAILABLE_VERSIONS
      else if candidates (resolveVersion fmt versions pd td opts) = []
      then NO_VERSION_COVERS_TRAVEL_DATE else OK)"
  by (simp add: resolveVersion_def baseResult_def Let_def array_sort_def
      split: versions_arg.split)

lemma explanation_resolveVersion:
  "explanation (resolveVersion fmt versions pd td opts) =
     buildExplanation fmt (match (resolveVersion fmt versions pd td opts))
       (candidates (resolveVersion fmt versions pd td opts))
       (available (resolveVersion fmt versions pd td opts))
       (futureCovering (resolveVersion fmt versions pd td opts))
       (toMillis pd) (toMillis td) (reason (resolveVersion fmt versions pd td opts))
       (destructureInclusiveEnd opts)"
  by (simp add: resolveVersion_def baseResult_def Let_def split: versions_arg.split)

text \<open>
  The reduce, started from a record: the result splits the list into the records before
  it, all strictly older in (publishDate, open), and those after it, none newer.
\<close>

lemma foldl_pickNewer_Some:
  "\<exists>ys m zs. a # xs = ys @ m # zs \<and> foldl pickNewer (Some a) xs = Some m
     \<and> (\<forall>c\<in>set ys. publishDate c < publishDate m
           \<or> (publishDate c = publishDate m \<and> open c < open m))
     \<and> (\<forall>c\<in>set zs. publishDate c < publishDate m
           \<or> (publishDate c = publishDate m \<and> open c \<le> open m))"
proof (induction xs rule: rev_induct)
  case Nil
  have "[a] = [] @ a # []" by simp
  then show ?case by (metis empty_iff foldl_Nil list.set(1))
next
  case (snoc x xs)
  then obtain ys m zs where split: "a # xs = ys @ m # zs"
    and sel: "foldl pickNewer (Some a) xs = Some m"
    and before: "\<forall>c\<in>set ys. publishDate c < publishDate m
        \<or> (publishDate c = publishDate m \<and> open c < open m)"
    and after: "\<forall>c\<in>set zs. publishDate c < publishDate m
        \<or> (publishDate c = publishDate m \<and> open c \<le> open m)"
    by blast
  show ?case
  proof (cases "publishDate x > publishDate m
      \<or> (publishDate x = publishDate m \<and> open x > open m)")
    case True
    have sel': "foldl pickNewer (Some a) (xs @ [x]) = Some x"
      using True sel by (auto simp: pickNewer_def)
    have all: "\<forall>c\<in>set (a # xs). publishDate c < publishDate x
        \<or> (publishDate c = publishDate x \<and> open c < open x)"
      unfolding split using True before after by fastforce
    have "a # xs @ [x] = (a # xs) @ x # []" by simp
    with sel' all show ?thesis by (metis empty_iff list.set(1))
  next
    case False
    have sel': "foldl pickNewer (Some a) (xs @ [x]) = Some m"
      using False sel by (auto simp: pickNewer_def)
    have after': "\<forall>c\<in>set (zs @ [x]). publishDate c < publishDate m
        \<or> (publishDate c = publishDate m \<and> open c \<le> open m)"
      using False after by fastforce
    have "a # xs @ [x] = ys @ m # (zs @ [x])" using split by simp
    with sel' before after' show ?thesis by blast
  qed
qed

lemma foldl_pickNewer_None:
  "cs \<noteq> [] \<Longrightarrow>
   \<exists>ys m zs. cs = ys @ m # zs \<and> foldl pickNewer None cs = Some m
     \<and> (\<forall>c\<in>set ys. publishDate c < publishDate m
           \<or> (publishDate c = publishDate m \<and> open c < open m))
     \<and> (\<forall>c\<in>set zs. publishDate c < publishDate m
           \<or> (publishDate c = publishDate m \<and> open c \<le> open m))"
proof (cases cs)
  case Nil
  assume "cs \<noteq> []" with Nil show ?thesis by simp
next
  case (Cons a xs)
  have "foldl pickNewer None cs = foldl pickNewer (Some a) xs"
    by (simp add: Cons pickNewer_def)
  with foldl_pickNewer_Some[of a xs] Cons show ?thesis by simp
qed

section \<open>Reason and match\<close>

text \<open>
  Claim C1. For an array of version records and any two instants, with \<open>p\<close> and \<open>t\<close>
  the purchase and travel instants in milliseconds: \<open>available\<close> holds exactly the
  records with \<open>publishDate \<le> p\<close>; when it is empty the reason is
  \<open>NO_AVAILABLE_VERSIONS\<close>, there is no match and \<open>candidates\<close> is empty; otherwise
  \<open>candidates\<close> holds exactly the available records whose window contains \<open>t\<close> under the
  end rule in force (inclusive when the destructured \<open>inclusiveEnd\<close> is truthy,
  exclusive otherwise); when it is empty the reason is \<open>NO_VERSION_COVERS_TRAVEL_DATE\<close>
  with no match, and otherwise the reason is \<open>OK\<close> and a match is present.
\<close>

theorem resolveVersion_reason_match:
  "let r = resolveVersion fmt (JsArray vs) pd td opts;
       p = toMillis pd;
       t = toMillis td;
       incl = truthy (destructureInclusiveEnd opts)
   in
     set (available r) = {v \<in> set vs. publishDate v \<le> p} \<and>
     (available r = [] \<longrightarrow>
        reason r = NO_AVAILABLE_VERSIONS \<and> match r = None \<and> candidates r = []) \<and>
     (available r \<noteq> [] \<longrightarrow>
        set (candidates r) =
          {v \<in> set (available r). open v \<le> t \<and> (if incl then t \<le> close v else t < close v)} \<and>
        (candidates r = [] \<longrightarrow> reason r = NO_VERSION_COVERS_TRAVEL_DATE \<and> match r = None) \<and>
        (candidates r \<noteq> [] \<longrightarrow> reason r = OK \<and> match r \<noteq> None))"
proof -
  define r where "r = resolveVersion fmt (JsArray vs) pd td opts"
  have av: "set (available r) = {v \<in> set vs. publishDate v \<le> toMillis pd}"
    unfolding r_def available_resolveVersion
    by (auto simp: set_sortedVersions_JsArray)
  have ca: "candidates r =
      filter (inRange (destructureInclusiveEnd opts) (toMillis td)) (available r)"
    unfolding r_def by (rule candidates_resolveVersion)
  have re: "reason r = (if available r = [] then NO_AVAILABLE_VERSIONS
      else if candidates r = [] then NO_VERSION_COVERS_TRAVEL_DATE else OK)"
    unfolding r_def by (rule reason_resolveVersion)
  have ma: "match r = foldl pickNewer None (candidates r)"
    unfolding r_def by (rule match_resolveVersion)
  have m1: "candidates r = [] \<Longrightarrow> match r = None" using ma by simp
  have m2: "candidates r \<noteq> [] \<Longrightarrow> match r \<noteq> None"
    using ma foldl_pickNewer_None[of "candidates r"] by auto
  have c1: "available r = [] \<Longrightarrow> candidates r = []" using ca by simp
  have c2: "set (candidates r) = {v \<in> set (available r). open v \<le> toMillis td
      \<and> (if truthy (destructureInclusiveEnd opts) then toMillis td \<le> close v
          else toMillis td < close v)}"
    using ca by (auto simp: inRange_def)
  show ?thesis
    unfolding Let_def r_def[symmetric]
    using av re m1 m2 c1 c2 by simp
qed

theorem resolveVersion_reason_match_witness:
  "(let r = resolveVersion fmtMillis (JsArray [v1]) (Millis 150) (Millis 150) OptionsOmitted
    in available r \<noteq> [] \<and> candidates r \<noteq> [] \<and> reason r = OK \<and> match r \<noteq> None)
   \<and> (let r = resolveVersion fmtMillis (JsArray [v1]) (Millis 50) (Millis 150) OptionsOmitted
    in available r = [] \<and> reason r = NO_AVAILABLE_VERSIONS \<and> match r = None
       \<and> candidates r = [])
   \<and> (let r = resolveVersion fmtMillis (JsArray [v1]) (Millis 150) (Millis 300) OptionsOmitted
    in available r \<noteq> [] \<and> candidates r = [] \<and> reason r = NO_VERSION_COVERS_TRAVEL_DATE
       \<and> match r = None)"
proof -
  have a: "available (resolveVersion fmtMillis (JsArray [v1]) (Millis 150) (Millis 150)
      OptionsOmitted) \<noteq> []"
    by (simp add: eval_defs v1_def)
  have b: "candidates (resolveVersion fmtMillis (JsArray [v1]) (Millis 150) (Millis 150)
      OptionsOmitted) \<noteq> []"
    by (simp add: eval_defs v1_def)
  have c: "available (resolveVersion fmtMillis (JsArray [v1]) (Millis 50) (Millis 150)
      OptionsOmitted) = []"
    by (simp add: eval_defs v1_def)
  have d: "available (resolveVersion fmtMillis (JsArray [v1]) (Millis 150) (Millis 300)
      OptionsOmitted) \<noteq> []"
    by (simp add: eval_defs v1_def)
  have e: "candidates (resolveVersion fmtMillis (JsArray [v1]) (Millis 150) (Millis 300)
      OptionsOmitted) = []"
    by (simp add: eval_defs v1_def)
  show ?thesis
    using a b c d e
      resolveVersion_reason_match [of fmtMillis "[v1]" "Millis 150" "Millis 150" OptionsOmitted]
      resolveVersion_reason_match [of fmtMillis "[v1]" "Millis 50" "Millis 150" OptionsOmitted]
      resolveVersion_reason_match [of fmtMillis "[v1]" "Millis 150" "Millis 300" OptionsOmitted]
    by (simp add: Let_def)
qed

section \<open>Selection of the match\<close>

text \<open>
  Claim C2. When the candidate list is not empty the reason is \<open>OK\<close> and the match is a
  candidate \<open>m\<close> of greatest \<open>publishDate\<close> and, among those of that \<open>publishDate\<close>, of
  greatest \<open>open\<close>; the candidates are in ascending \<open>publishDate\<close> order and every
  candidate before \<open>m\<close> in that order is strictly smaller in \<open>publishDate\<close>, or equal in
  it and strictly smaller in \<open>open\<close>, so on a tie in both the earlier candidate is kept.
\<close>

theorem resolveVersion_selection:
  "candidates (resolveVersion fmt versions pd td opts) \<noteq> [] \<Longrightarrow>
   (let r = resolveVersion fmt versions pd td opts in
     reason r = OK \<and>
     sorted (map publishDate (candidates r)) \<and>
     (\<exists>ys m zs. candidates r = ys @ m # zs \<and> match r = Some m
        \<and> (\<forall>c\<in>set ys. publishDate c < publishDate m
              \<or> (publishDate c = publishDate m \<and> open c < open m))
        \<and> (\<forall>c\<in>set zs. publishDate c < publishDate m
              \<or> (publishDate c = publishDate m \<and> open c \<le> open m))))"
proof -
  define r where "r = resolveVersion fmt versions pd td opts"
  assume ne: "candidates (resolveVersion fmt versions pd td opts) \<noteq> []"
  then have ne': "candidates r \<noteq> []" by (simp add: r_def)
  have ca: "candidates r =
      filter (inRange (destructureInclusiveEnd opts) (toMillis td)) (available r)"
    unfolding r_def by (rule candidates_resolveVersion)
  with ne' have "available r \<noteq> []" by auto
  then have re: "reason r = OK"
    using ne' reason_resolveVersion[of fmt versions pd td opts] by (simp add: r_def)
  have "sorted (map publishDate (available r))"
    unfolding r_def available_resolveVersion
    by (intro sorted_filter sorted_sortedVersions)
  then have so: "sorted (map publishDate (candidates r))"
    by (subst ca) (rule sorted_filter)
  have ma: "match r = foldl pickNewer None (candidates r)"
    unfolding r_def by (rule match_resolveVersion)
  show ?thesis
    unfolding Let_def r_def[symmetric]
    using re so foldl_pickNewer_None[OF ne'] ma by simp
qed

theorem resolveVersion_selection_witness:
  "(let r = resolveVersion fmtMillis (JsArray [v2, v1]) (Millis 160) (Millis 150) OptionsOmitted
    in candidates r = [v1, v2] \<and> reason r = OK \<and> match r = Some v2)
   \<and> match (resolveVersion fmtMillis (JsArray [v2, v2b, v1]) (Millis 160) (Millis 150)
        OptionsOmitted) = Some v2b
   \<and> match (resolveVersion fmtMillis (JsArray [v2b, v1, v2]) (Millis 160) (Millis 150)
        OptionsOmitted) = Some v2b"
proof -
  let ?r = "resolveVersion fmtMillis (JsArray [v2, v1]) (Millis 160) (Millis 150) OptionsOmitted"
  have c: "candidates ?r = [v1, v2]"
    by (simp add: eval_defs v1_def v2_def)
  then have ne: "candidates ?r \<noteq> []" by simp
  have m: "match ?r = Some v2"
    by (simp add: eval_defs v1_def v2_def)
  have t1: "match (resolveVersion fmtMillis (JsArray [v2, v2b, v1]) (Millis 160) (Millis 150)
        OptionsOmitted) = Some v2b"
    by (simp add: eval_defs v1_def v2_def v2b_def)
  have t2: "match (resolveVersion fmtMillis (JsArray [v2b, v1, v2]) (Millis 160) (Millis 150)
        OptionsOmitted) = Some v2b"
    by (simp add: eval_defs v1_def v2_def v2b_def)
  from resolveVersion_selection[OF ne] have "reason ?r = OK" by (simp add: Let_def)
  with c m t1 t2 show ?thesis by (simp add: Let_def)
qed

section \<open>Invariants of the result\<close>

text \<open>
  Claim C10. In every result (in particular for every array argument): each candidate is
  an available record; each available record has \<open>publishDate\<close> at most the normalized
  purchase instant and each future-covering record has it strictly greater, so the two
  lists share no record; \<open>available\<close>, \<open>candidates\<close> and \<open>futureCovering\<close> are each
  ascending in \<open>publishDate\<close>; and a match, when present, is a candidate and is not a
  future-covering record.
\<close>

theorem resolveVersion_invariants:
  "let r = resolveVersion fmt versions pd td opts in
     purchaseDate r = toMillis pd \<and>
     set (candidates r) \<subseteq> set (available r) \<and>
     (\<forall>v\<in>set (available r). publishDate v \<le> purchaseDate r) \<and>
     (\<forall>v\<in>set (futureCovering r). purchaseDate r < publishDate v) \<and>
     set (available r) \<inter> set (futureCovering r) = {} \<and>
     sorted (map publishDate (available r)) \<and>
     sorted (map publishDate (candidates r)) \<and>
     sorted (map publishDate (futureCovering r)) \<and>
     (\<forall>m. match r = Some m \<longrightarrow> m \<in> set (candidates r) \<and> m \<notin> set (futureCovering r))"
proof -
  define r where "r = resolveVersion fmt versions pd td opts"
  have pu: "purchaseDate r = toMillis pd"
    unfolding r_def
    by (simp add: resolveVersion_def baseResult_def Let_def split: versions_arg.split)
  have av: "available r = filter (\<lambda>v. publishDate v \<le> toMillis pd) (sortedVersions versions)"
    unfolding r_def by (rule available_resolveVersion)
  have ca: "candidates r =
      filter (inRange (destructureInclusiveEnd opts) (toMillis td)) (available r)"
    unfolding r_def by (rule candidates_resolveVersion)
  have fu: "futureCovering r = filter (\<lambda>v. publishDate v > toMillis pd
                \<and> inRange (destructureInclusiveEnd opts) (toMillis td) v)
       (sortedVersions versions)"
    unfolding r_def by (rule futureCovering_resolveVersion)
  have ma: "match r = foldl pickNewer None (candidates r)"
    unfolding r_def by (rule match_resolveVersion)
  have i1: "set (candidates r) \<subseteq> set (available r)" using ca by auto
  have i2: "\<forall>v\<in>set (available r). publishDate v \<le> purchaseDate r" using av pu by simp
  have i3: "\<forall>v\<in>set (futureCovering r). purchaseDate r < publishDate v" using fu pu by simp
  have i4: "set (available r) \<inter> set (futureCovering r) = {}" using i2 i3 by fastforce
  have s1: "sorted (map publishDate (available r))"
    unfolding av by (intro sorted_filter sorted_sortedVersions)
  have s2: "sorted (map publishDate (candidates r))"
    by (subst ca) (rule sorted_filter[OF s1])
  have s3: "sorted (map publishDate (futureCovering r))"
    unfolding fu by (intro sorted_filter sorted_sortedVersions)
  have i5: "m \<in> set (candidates r)" if "match r = Some m" for m
  proof (cases "candidates r = []")
    case True
    with ma that show ?thesis by simp
  next
    case False
    from foldl_pickNewer_None[OF False] ma that show ?thesis by auto
  qed
  have i6: "m \<notin> set (futureCovering r)" if "match r = Some m" for m
    using i5[OF that] i1 i4 by auto
  show ?thesis
    unfolding Let_def r_def[symmetric]
    using pu i1 i2 i3 i4 s1 s2 s3 i5 i6 by blast
qed

theorem resolveVersion_invariants_witness:
  "(let r = resolveVersion fmtMillis (JsArray [v3, v2, v1]) (Millis 160) (Millis 150)
        OptionsOmitted
    in available r = [v1, v2] \<and> candidates r = [v1, v2] \<and> futureCovering r = [v3]
       \<and> match r = Some v2 \<and> v2 \<in> set (candidates r) \<and> v2 \<notin> set (futureCovering r))"
proof -
  let ?r = "resolveVersion fmtMillis (JsArray [v3, v2, v1]) (Millis 160) (Millis 150)
        OptionsOmitted"
  have a: "available ?r = [v1, v2]" by (simp add: eval_defs v1_def v2_def v3_def)
  have c: "candidates ?r = [v1, v2]" by (simp add: eval_defs v1_def v2_def v3_def)
  have f: "futureCovering ?r = [v3]" by (simp add: eval_defs v1_def v2_def v3_def)
  have m: "match ?r = Some v2" by (simp add: eval_defs v1_def v2_def v3_def)
  from resolveVersion_invariants[of fmtMillis "JsArray [v3, v2, v1]" "Millis 160" "Millis 150"
      OptionsOmitted] m
  have "v2 \<in> set (candidates ?r) \<and> v2 \<notin> set (futureCovering ?r)"
    unfolding Let_def by blast
  with a c f m show ?thesis by (simp add: Let_def)
qed

section \<open>Monotonic availability\<close>

text \<open>
  Claim C7. For fixed versions, travel date and options and purchase instants
  \<open>p1 \<le> p2\<close>, every record available at \<open>p1\<close> is available at \<open>p2\<close>; the list at \<open>p1\<close> is
  the list at \<open>p2\<close> with some records left out, in the same order.
\<close>

theorem available_monotone:
  "toMillis p1 \<le> toMillis p2 \<Longrightarrow>
   set (available (resolveVersion fmt versions p1 td opts))
     \<subseteq> set (available (resolveVersion fmt versions p2 td opts))
   \<and> subseq (available (resolveVersion fmt versions p1 td opts))
        (available (resolveVersion fmt versions p2 td opts))"
proof -
  assume le: "toMillis p1 \<le> toMillis p2"
  have "filter (\<lambda>v. publishDate v \<le> toMillis p1) (sortedVersions versions) =
      filter (\<lambda>v. publishDate v \<le> toMillis p1)
        (filter (\<lambda>v. publishDate v \<le> toMillis p2) (sortedVersions versions))"
    using le by (auto intro: filter_cong)
  then have eq: "available (resolveVersion fmt versions p1 td opts) =
      filter (\<lambda>v. publishDate v \<le> toMillis p1)
        (available (resolveVersion fmt versions p2 td opts))"
    by (simp only: available_resolveVersion)
  show ?thesis
    by (subst (1 2) eq) simp
qed

theorem available_monotone_witness:
  "toMillis (Millis 120) \<le> toMillis (DateObj 160)
   \<and> available (resolveVersion fmtMillis (JsArray [v3, v2, v1]) (Millis 120) (Millis 150)
        OptionsOmitted) = [v1]
   \<and> available (resolveVersion fmtMillis (JsArray [v3, v2, v1]) (DateObj 160) (Millis 150)
        OptionsOmitted) = [v1, v2]
   \<and> set (available (resolveVersion fmtMillis (JsArray [v3, v2, v1]) (Millis 120) (Millis 150)
        OptionsOmitted))
     \<subseteq> set (available (resolveVersion fmtMillis (JsArray [v3, v2, v1]) (DateObj 160)
        (Millis 150) OptionsOmitted))"
proof -
  have h: "toMillis (Millis 120) \<le> toMillis (DateObj 160)" by simp
  have a: "available (resolveVersion fmtMillis (JsArray [v3, v2, v1]) (Millis 120) (Millis 150)
        OptionsOmitted) = [v1]" by (simp add: eval_defs v1_def v2_def v3_def)
  have b: "available (resolveVersion fmtMillis (JsArray [v3, v2, v1]) (DateObj 160) (Millis 150)
        OptionsOmitted) = [v1, v2]" by (simp add: eval_defs v1_def v2_def v3_def)
  from available_monotone[OF h, of fmtMillis "JsArray [v3, v2, v1]" "Millis 150" OptionsOmitted]
  have "set (available (resolveVersion fmtMillis (JsArray [v3, v2, v1]) (Millis 120) (Millis 150)
        OptionsOmitted))
     \<subseteq> set (available (resolveVersion fmtMillis (JsArray [v3, v2, v1]) (DateObj 160)
        (Millis 150) OptionsOmitted))" by blast
  with h a b show ?thesis by blast
qed

section \<open>The end boundary\<close>

text \<open>
  Claim C5. For a record \<open>v\<close> of the array that is available at the purchase instant:
  when \<open>open v \<le> close v\<close> and the travel instant is \<open>close v\<close>, \<open>v\<close> is a candidate under
  \<^verbatim>\<open>{ inclusiveEnd: true }\<close> and is not one under \<^verbatim>\<open>{ inclusiveEnd: false }\<close>, all else
  equal; and when \<open>open v = close v\<close>, \<open>v\<close> is a candidate under the inclusive end exactly
  when the travel instant is that one instant.
\<close>

theorem boundary_law:
  "v \<in> set vs \<Longrightarrow> publishDate v \<le> toMillis pd \<Longrightarrow>
   (open v \<le> close v \<and> toMillis td = close v \<longrightarrow>
      v \<in> set (candidates (resolveVersion fmt (JsArray vs) pd td (OptionsObject (JBool True))))
      \<and> v \<notin> set (candidates (resolveVersion fmt (JsArray vs) pd td
            (OptionsObject (JBool False)))))
   \<and> (open v = close v \<longrightarrow>
      (v \<in> set (candidates (resolveVersion fmt (JsArray vs) pd td (OptionsObject (JBool True))))
        \<longleftrightarrow> toMillis td = open v))"
proof -
  assume mem: "v \<in> set vs" and pub: "publishDate v \<le> toMillis pd"
  have av: "v \<in> set (available (resolveVersion fmt (JsArray vs) pd td opts))" for opts
    using mem pub by (simp add: available_resolveVersion set_sortedVersions_JsArray)
  have incl: "v \<in> set (candidates (resolveVersion fmt (JsArray vs) pd td
        (OptionsObject (JBool True))))
      \<longleftrightarrow> open v \<le> toMillis td \<and> toMillis td \<le> close v"
    using av[of "OptionsObject (JBool True)"]
    by (subst candidates_resolveVersion) (simp add: inRange_def destructureInclusiveEnd_def)
  have excl: "v \<in> set (candidates (resolveVersion fmt (JsArray vs) pd td
        (OptionsObject (JBool False))))
      \<longleftrightarrow> open v \<le> toMillis td \<and> toMillis td < close v"
    using av[of "OptionsObject (JBool False)"]
    by (subst candidates_resolveVersion) (simp add: inRange_def destructureInclusiveEnd_def)
  show ?thesis
    unfolding incl excl by auto
qed

theorem boundary_law_witness:
  "v1 \<in> set [v1] \<and> publishDate v1 \<le> toMillis (Millis 150) \<and> open v1 \<le> close v1
   \<and> toMillis (Millis 200) = close v1
   \<and> v1 \<in> set (candidates (resolveVersion fmtMillis (JsArray [v1]) (Millis 150) (Millis 200)
        (OptionsObject (JBool True))))
   \<and> v1 \<notin> set (candidates (resolveVersion fmtMillis (JsArray [v1]) (Millis 150) (Millis 200)
        (OptionsObject (JBool False))))
   \<and> reason (resolveVersion fmtMillis (JsArray [v1]) (Millis 150) (Millis 200)
        (OptionsObject (JBool False))) = NO_VERSION_COVERS_TRAVEL_DATE"
proof -
  have h1: "v1 \<in> set [v1]" by simp
  have h2: "publishDate v1 \<le> toMillis (Millis 150)" by (simp add: v1_def)
  have h3: "open v1 \<le> close v1 \<and> toMillis (Millis 200) = close v1" by (simp add: v1_def)
  have e: "reason (resolveVersion fmtMillis (JsArray [v1]) (Millis 150) (Millis 200)
        (OptionsObject (JBool False))) = NO_VERSION_COVERS_TRAVEL_DATE"
    by (simp add: eval_defs v1_def)
  from boundary_law[OF h1 h2, of "Millis 200" fmtMillis] h1 h2 h3 e
  show ?thesis by blast
qed

section \<open>Order of the input array\<close>

lemma match_maximal:
  assumes "match (resolveVersion fmt versions pd td opts) = Some m"
  shows "m \<in> set (candidates (resolveVersion fmt versions pd td opts))"
    and "\<forall>c\<in>set (candidates (resolveVersion fmt versions pd td opts)).
           publishDate c < publishDate m \<or> (publishDate c = publishDate m \<and> open c \<le> open m)"
proof -
  let ?cs = "candidates (resolveVersion fmt versions pd td opts)"
  have ma: "foldl pickNewer None ?cs = Some m"
    using assms by (simp add: match_resolveVersion[symmetric])
  then have ne: "?cs \<noteq> []" by auto
  from foldl_pickNewer_None[OF ne] ma obtain ys zs where
    split: "?cs = ys @ m # zs"
    and before: "\<forall>c\<in>set ys. publishDate c < publishDate m
        \<or> (publishDate c = publishDate m \<and> open c < open m)"
    and after: "\<forall>c\<in>set zs. publishDate c < publishDate m
        \<or> (publishDate c = publishDate m \<and> open c \<le> open m)"
    by auto
  show "m \<in> set ?cs" by (subst split) simp
  show "\<forall>c\<in>set ?cs. publishDate c < publishDate m
      \<or> (publishDate c = publishDate m \<and> open c \<le> open m)"
    using before after by (subst split) fastforce
qed

lemma set_candidates_JsArray:
  "set (candidates (resolveVersion fmt (JsArray vs) pd td opts)) =
     {v \<in> set vs. publishDate v \<le> toMillis pd
        \<and> inRange (destructureInclusiveEnd opts) (toMillis td) v}"
  by (subst candidates_resolveVersion)
    (auto simp: available_resolveVersion set_sortedVersions_JsArray)

lemma match_None_iff:
  "match (resolveVersion fmt versions pd td opts) = None
     \<longleftrightarrow> candidates (resolveVersion fmt versions pd td opts) = []"
proof (cases "candidates (resolveVersion fmt versions pd td opts) = []")
  case True
  then show ?thesis by (simp add: match_resolveVersion)
next
  case False
  from foldl_pickNewer_None[OF False] False show ?thesis
    by (auto simp: match_resolveVersion[symmetric])
qed

text \<open>
  Claim C3, as amended. For a list of version records and a permutation of it, with the
  same purchase date, travel date and options, the two results have the same reason, and
  their matches are both absent or both present with the same \<open>publishDate\<close> and the same
  \<open>open\<close>; when no two different records of the list agree in both \<open>publishDate\<close> and
  \<open>open\<close>, the two matches are the same record.
\<close>

theorem order_independence_amended:
  "mset vs' = mset vs \<Longrightarrow>
   (let r = resolveVersion fmt (JsArray vs) pd td opts;
        r' = resolveVersion fmt (JsArray vs') pd td opts
    in reason r' = reason r
       \<and> map_option publishDate (match r') = map_option publishDate (match r)
       \<and> map_option open (match r') = map_option open (match r)
       \<and> ((\<forall>a\<in>set vs. \<forall>b\<in>set vs. publishDate a = publishDate b \<and> open a = open b \<longrightarrow> a = b)
            \<longrightarrow> match r' = match r))"
proof -
  assume perm: "mset vs' = mset vs"
  define r where "r = resolveVersion fmt (JsArray vs) pd td opts"
  define r' where "r' = resolveVersion fmt (JsArray vs') pd td opts"
  from perm have sets: "set vs' = set vs" by (rule mset_eq_setD)
  have cs: "set (candidates r') = set (candidates r)"
    unfolding r_def r'_def set_candidates_JsArray sets ..
  have av: "set (available r') = set (available r)"
    unfolding r_def r'_def available_resolveVersion
    by (simp add: set_sortedVersions_JsArray sets)
  have cse: "candidates r' = [] \<longleftrightarrow> candidates r = []"
    using cs by (metis set_empty)
  have ave: "available r' = [] \<longleftrightarrow> available r = []"
    using av by (metis set_empty)
  have re: "reason r' = reason r"
    unfolding r_def r'_def
    by (subst (1 2) reason_resolveVersion) (use cse ave in \<open>simp add: r_def r'_def\<close>)
  have none: "match r' = None \<longleftrightarrow> match r = None"
    using cse by (simp add: r_def r'_def match_None_iff)
  have keys: "publishDate m' = publishDate m \<and> open m' = open m
      \<and> m \<in> set vs \<and> m' \<in> set vs"
    if m: "match r = Some m" and m': "match r' = Some m'" for m m'
  proof -
    have a: "m \<in> set (candidates r)"
      using match_maximal(1)[OF m[unfolded r_def]] by (simp add: r_def)
    have b: "m' \<in> set (candidates r)"
      using match_maximal(1)[OF m'[unfolded r'_def]] cs by (simp add: r'_def)
    have c: "\<forall>c\<in>set (candidates r).
        publishDate c < publishDate m \<or> (publishDate c = publishDate m \<and> open c \<le> open m)"
      using match_maximal(2)[OF m[unfolded r_def]] by (simp add: r_def)
    have d: "\<forall>c\<in>set (candidates r).
        publishDate c < publishDate m' \<or> (publishDate c = publishDate m' \<and> open c \<le> open m')"
      using match_maximal(2)[OF m'[unfolded r'_def]] cs by (simp add: r'_def)
    from c b have e: "publishDate m' < publishDate m
        \<or> (publishDate m' = publishDate m \<and> open m' \<le> open m)" by (rule bspec)
    from d a have f: "publishDate m < publishDate m'
        \<or> (publishDate m = publishDate m' \<and> open m \<le> open m')" by (rule bspec)
    from e f have "publishDate m' = publishDate m \<and> open m' = open m" by arith
    moreover have "m \<in> set vs" using a by (simp add: r_def set_candidates_JsArray)
    moreover have "m' \<in> set vs" using b by (simp add: r_def set_candidates_JsArray)
    ultimately show ?thesis by simp
  qed
  have pd: "map_option publishDate (match r') = map_option publishDate (match r)"
  proof (cases "match r")
    case None
    with none show ?thesis by simp
  next
    case (Some m)
    with none obtain m' where "match r' = Some m'" by (cases "match r'") auto
    with Some keys[of m m'] show ?thesis by simp
  qed
  have op: "map_option open (match r') = map_option open (match r)"
  proof (cases "match r")
    case None
    with none show ?thesis by simp
  next
    case (Some m)
    with none obtain m' where "match r' = Some m'" by (cases "match r'") auto
    with Some keys[of m m'] show ?thesis by simp
  qed
  have same: "match r' = match r"
    if inj: "\<forall>a\<in>set vs. \<forall>b\<in>set vs. publishDate a = publishDate b \<and> open a = open b \<longrightarrow> a = b"
  proof (cases "match r")
    case None
    with none show ?thesis by simp
  next
    case (Some m)
    with none obtain m' where m': "match r' = Some m'" by (cases "match r'") auto
    from keys[OF Some m'] inj have "m' = m" by blast
    with Some m' show ?thesis by simp
  qed
  show ?thesis
    unfolding Let_def r_def[symmetric] r'_def[symmetric]
    using re pd op same by blast
qed

text \<open>
  Claim C3 as stated fails: the sort is stable and the reduce keeps the accumulator on a
  tie in both \<open>publishDate\<close> and \<open>open\<close>, so of two records that tie in both, the one
  that comes first in the input is the match. Swapping them changes the match.
\<close>

theorem order_independence_counterexample:
  "mset [v2x, v2] = mset [v2, v2x] \<and> v2 \<noteq> v2x
   \<and> match (resolveVersion fmtMillis (JsArray [v2, v2x]) (Millis 160) (Millis 150)
        OptionsOmitted) = Some v2
   \<and> match (resolveVersion fmtMillis (JsArray [v2x, v2]) (Millis 160) (Millis 150)
        OptionsOmitted) = Some v2x"
proof -
  have p: "mset [v2x, v2] = mset [v2, v2x]" by simp
  have ne: "v2 \<noteq> v2x" by (simp add: v2_def v2x_def)
  have a: "match (resolveVersion fmtMillis (JsArray [v2, v2x]) (Millis 160) (Millis 150)
        OptionsOmitted) = Some v2"
    by (simp add: eval_defs v2_def v2x_def)
  have b: "match (resolveVersion fmtMillis (JsArray [v2x, v2]) (Millis 160) (Millis 150)
        OptionsOmitted) = Some v2x"
    by (simp add: eval_defs v2_def v2x_def)
  from p ne a b show ?thesis by blast
qed

theorem order_independence_amended_witness:
  "mset [v2, v1, v3] = mset [v1, v2, v3]
   \<and> match (resolveVersion fmtMillis (JsArray [v2, v1, v3]) (Millis 160) (Millis 150)
        OptionsOmitted) = Some v2
   \<and> match (resolveVersion fmtMillis (JsArray [v1, v2, v3]) (Millis 160) (Millis 150)
        OptionsOmitted) = Some v2
   \<and> reason (resolveVersion fmtMillis (JsArray [v2, v1, v3]) (Millis 160) (Millis 150)
        OptionsOmitted) = OK"
proof -
  have h: "mset [v2, v1, v3] = mset [v1, v2, v3]" by simp
  have inj: "\<forall>a\<in>set [v1, v2, v3]. \<forall>b\<in>set [v1, v2, v3].
      publishDate a = publishDate b \<and> open a = open b \<longrightarrow> a = b"
    by (simp add: v1_def v2_def v3_def)
  have m: "match (resolveVersion fmtMillis (JsArray [v1, v2, v3]) (Millis 160) (Millis 150)
        OptionsOmitted) = Some v2"
    by (simp add: eval_defs v1_def v2_def v3_def)
  have re: "reason (resolveVersion fmtMillis (JsArray [v1, v2, v3]) (Millis 160) (Millis 150)
        OptionsOmitted) = OK"
    by (simp add: eval_defs v1_def v2_def v3_def)
  note inst = order_independence_amended[OF h, of fmtMillis "Millis 160" "Millis 150"
      OptionsOmitted, unfolded Let_def]
  from inst inj have "match (resolveVersion fmtMillis (JsArray [v2, v1, v3]) (Millis 160)
      (Millis 150) OptionsOmitted) = match (resolveVersion fmtMillis (JsArray [v1, v2, v3])
      (Millis 160) (Millis 150) OptionsOmitted)" by blast
  moreover from inst have "reason (resolveVersion fmtMillis (JsArray [v2, v1, v3]) (Millis 160)
      (Millis 150) OptionsOmitted) = reason (resolveVersion fmtMillis (JsArray [v1, v2, v3])
      (Millis 160) (Millis 150) OptionsOmitted)" by blast
  ultimately show ?thesis using h m re by simp
qed

section \<open>The inclusiveEnd option\<close>

lemma options_resolveVersion:
  "inclusiveEnd (options (resolveVersion fmt versions pd td opts)) =
     (inclusiveEndProp opts \<noteq> JBool False)"
  by (simp add: resolveVersion_def baseResult_def Let_def split: versions_arg.split)

lemma travelDate_resolveVersion:
  "travelDate (resolveVersion fmt versions pd td opts) = toMillis td"
  by (simp add: resolveVersion_def baseResult_def Let_def split: versions_arg.split)

lemma truthy_destructure:
  "inclusiveEndProp opts = JUndefined \<or> truthy (inclusiveEndProp opts)
     \<or> inclusiveEndProp opts = JBool False \<Longrightarrow>
   truthy (destructureInclusiveEnd opts) = (inclusiveEndProp opts \<noteq> JBool False)"
  by (auto simp: destructureInclusiveEnd_def)

text \<open>
  Where the two readings of the option agree. When \<^verbatim>\<open>options.inclusiveEnd\<close> is absent,
  is \<^verbatim>\<open>false\<close> or is a truthy value, the echoed \<open>options.inclusiveEnd\<close> is \<open>True\<close> unless
  the value is \<^verbatim>\<open>false\<close>, and it is the rule the coverage predicate applied.
\<close>

lemma inclusiveEnd_applied_consistent:
  "inclusiveEndProp opts = JUndefined \<or> truthy (inclusiveEndProp opts)
     \<or> inclusiveEndProp opts = JBool False \<Longrightarrow>
   (let r = resolveVersion fmt versions pd td opts;
        p = toMillis pd;
        t = toMillis td;
        incl = inclusiveEnd (options r)
    in incl = (inclusiveEndProp opts \<noteq> JBool False)
       \<and> candidates r =
           filter (\<lambda>v. open v \<le> t \<and> (if incl then t \<le> close v else t < close v))
             (available r)
       \<and> futureCovering r =
           filter (\<lambda>v. p < publishDate v
                     \<and> open v \<le> t \<and> (if incl then t \<le> close v else t < close v))
             (sortedVersions versions))"
proof -
  assume dom: "inclusiveEndProp opts = JUndefined \<or> truthy (inclusiveEndProp opts)
     \<or> inclusiveEndProp opts = JBool False"
  define r where "r = resolveVersion fmt versions pd td opts"
  have echo: "inclusiveEnd (options r) = (inclusiveEndProp opts \<noteq> JBool False)"
    unfolding r_def by (rule options_resolveVersion)
  have tr: "truthy (destructureInclusiveEnd opts) = inclusiveEnd (options r)"
    using truthy_destructure[OF dom] echo by simp
  have rng: "inRange (destructureInclusiveEnd opts) (toMillis td) =
      (\<lambda>v. open v \<le> toMillis td
         \<and> (if inclusiveEnd (options r) then toMillis td \<le> close v else toMillis td < close v))"
    by (rule ext) (simp add: inRange_def tr)
  have ca: "candidates r = filter (\<lambda>v. open v \<le> toMillis td
         \<and> (if inclusiveEnd (options r) then toMillis td \<le> close v else toMillis td < close v))
      (available r)"
    unfolding r_def candidates_resolveVersion[of fmt versions pd td opts]
    by (simp only: rng[unfolded r_def])
  have fu: "futureCovering r = filter (\<lambda>v. toMillis pd < publishDate v \<and> open v \<le> toMillis td
         \<and> (if inclusiveEnd (options r) then toMillis td \<le> close v else toMillis td < close v))
      (sortedVersions versions)"
    unfolding r_def futureCovering_resolveVersion
    by (simp only: rng[unfolded r_def])
  show ?thesis
    unfolding Let_def r_def[symmetric]
    using echo ca fu by simp
qed

text \<open>
  Claim C4: the end boundary is inclusive for every \<^verbatim>\<open>inclusiveEnd\<close> other than
  \<^verbatim>\<open>false\<close>, and the rule applied is the one echoed in \<open>options\<close>. The code breaks
  this at \<^verbatim>\<open>{ inclusiveEnd: null }\<close> (and at every other falsy value that is not
  \<^verbatim>\<open>false\<close>): the destructuring default does not apply, the conditionals of
  \<^verbatim>\<open>inRange\<close> and of \<^verbatim>\<open>endWord\<close> take the exclusive branch, and \<^verbatim>\<open>baseResult\<close>
  echoes \<^verbatim>\<open>null !== false\<close>, that is \<open>True\<close>. In the run below \<open>v1\<close> is available and
  its window contains the travel instant 200 under the inclusive rule, which the
  result announces; yet \<open>v1\<close> is no candidate, the reason is
  \<open>NO_VERSION_COVERS_TRAVEL_DATE\<close> and the explanation says that the end is exclusive.
  Under \<^verbatim>\<open>{ inclusiveEnd: true }\<close>, which echoes the same option, \<open>v1\<close> is the candidate.
\<close>

theorem inclusiveEnd_null_divergence:
  "inclusiveEndProp (OptionsObject JNull) \<noteq> JBool False
   \<and> inclusiveEnd (options (resolveVersion fmtMillis (JsArray [v1]) (Millis 150) (Millis 200)
        (OptionsObject JNull))) = True
   \<and> available (resolveVersion fmtMillis (JsArray [v1]) (Millis 150) (Millis 200)
        (OptionsObject JNull)) = [v1]
   \<and> open v1 \<le> 200 \<and> 200 \<le> close v1
   \<and> candidates (resolveVersion fmtMillis (JsArray [v1]) (Millis 150) (Millis 200)
        (OptionsObject JNull)) = []
   \<and> reason (resolveVersion fmtMillis (JsArray [v1]) (Millis 150) (Millis 200)
        (OptionsObject JNull)) = NO_VERSION_COVERS_TRAVEL_DATE
   \<and> suffix ''(Sluttdato er eksklusiv).''
        (explanation (resolveVersion fmtMillis (JsArray [v1]) (Millis 150) (Millis 200)
           (OptionsObject JNull)))
   \<and> candidates (resolveVersion fmtMillis (JsArray [v1]) (Millis 150) (Millis 200)
        (OptionsObject (JBool True))) = [v1]"
proof -
  let ?r = "resolveVersion fmtMillis (JsArray [v1]) (Millis 150) (Millis 200)
        (OptionsObject JNull)"
  have a: "inclusiveEndProp (OptionsObject JNull) \<noteq> JBool False" by simp
  have b: "inclusiveEnd (options ?r) = True"
    by (simp add: eval_defs v1_def)
  have c: "available ?r = [v1]"
    by (simp add: eval_defs v1_def)
  have d: "open v1 \<le> 200 \<and> 200 \<le> close v1" by (simp add: v1_def)
  have e: "candidates ?r = []"
    by (simp add: eval_defs v1_def)
  have f: "reason ?r = NO_VERSION_COVERS_TRAVEL_DATE"
    by (simp add: eval_defs v1_def)
  have fu: "futureCovering ?r = []"
    by (simp add: eval_defs v1_def)
  have "explanation ?r = buildExplanation fmtMillis (match ?r) (candidates ?r) (available ?r)
      (futureCovering ?r) 150 200 (reason ?r) JNull"
    by (simp add: explanation_resolveVersion destructureInclusiveEnd_def)
  then have g: "suffix ''(Sluttdato er eksklusiv).'' (explanation ?r)"
    unfolding f fu by (simp add: buildExplanation_def Let_def suffix_def)
  have h: "candidates (resolveVersion fmtMillis (JsArray [v1]) (Millis 150) (Millis 200)
        (OptionsObject (JBool True))) = [v1]"
    by (simp add: eval_defs v1_def)
  from a b c d e f g h show ?thesis by blast
qed

section \<open>The explanation\<close>

lemma last_greatest_publishDate:
  "sorted (map publishDate fs) \<Longrightarrow> g \<in> set fs \<Longrightarrow> publishDate g \<le> publishDate (last fs)"
proof (induction fs)
  case Nil
  then show ?case by simp
next
  case (Cons x xs)
  show ?case
  proof (cases "xs = []")
    case True
    with Cons.prems show ?thesis by simp
  next
    case False
    then have "last xs \<in> set xs" by simp
    with Cons False show ?thesis by auto
  qed
qed

lemma buildExplanation_no_cover:
  "future \<noteq> [] \<Longrightarrow>
   buildExplanation fmt m cands avail future p t NO_VERSION_COVERS_TRAVEL_DATE inclEnd =
     (''Det fantes '' @ showNat (length avail) @ '' publiserte versjon(er) p''
        @ aring @ '' '' @ kjopsdato @ '' '' @ fmt p
        @ '', men ingen hadde en gyldighetsperiode som dekker reisedato '' @ fmt t
        @ ''. (Sluttdato er '' @ (if truthy inclEnd then ''inkludert'' else ''eksklusiv'')
        @ '').'')
     @ futureAsideNoCover fmt (last future)"
  by (simp add: buildExplanation_def Let_def last_conv_nth)

lemma buildExplanation_ok:
  "future \<noteq> [] \<Longrightarrow>
   \<exists>pre. buildExplanation fmt (Some mv) cands avail future p t OK inclEnd =
     pre @ futureAsideOk fmt (last future)"
  by (simp add: buildExplanation_def Let_def last_conv_nth)

text \<open>
  Claim C9. When \<open>futureCovering\<close> is not empty, its last record \<open>f\<close> has the greatest
  \<open>publishDate\<close> of the list. If the reason is \<open>NO_VERSION_COVERS_TRAVEL_DATE\<close> the
  explanation starts by stating the number of available versions and ends with the aside
  that names \<open>version f\<close> and the formatted \<open>publishDate f\<close>; if the reason is \<open>OK\<close> the
  explanation ends with the aside of that branch, naming the same two.
\<close>

theorem explanation_future_aside:
  "let r = resolveVersion fmt versions pd td opts;
       f = last (futureCovering r)
   in futureCovering r \<noteq> [] \<longrightarrow>
      f \<in> set (futureCovering r)
      \<and> (\<forall>g\<in>set (futureCovering r). publishDate g \<le> publishDate f)
      \<and> (reason r = NO_VERSION_COVERS_TRAVEL_DATE \<longrightarrow>
           prefix (''Det fantes '' @ showNat (length (available r))
                     @ '' publiserte versjon(er) p'' @ aring @ '' '' @ kjopsdato)
             (explanation r)
           \<and> suffix ('' En nyere versjon ('' @ version f @ '', publisert ''
                       @ fmt (publishDate f)
                       @ '') ville ha dekket reisedatoen men var ikke tilgjengelig ved kj''
                       @ oslash @ ''p.'')
               (explanation r))
      \<and> (reason r = OK \<longrightarrow>
           suffix ('' En senere versjon ('' @ version f @ '', publisert ''
                     @ fmt (publishDate f)
                     @ '') ville ogs'' @ aring
                     @ '' dekke reisedatoen men var ikke publisert p'' @ aring @ '' ''
                     @ kjopsdato @ ''.'')
             (explanation r))"
proof -
  define r where "r = resolveVersion fmt versions pd td opts"
  define f where "f = last (futureCovering r)"
  have ex: "explanation r = buildExplanation fmt (match r) (candidates r) (available r)
      (futureCovering r) (toMillis pd) (toMillis td) (reason r) (destructureInclusiveEnd opts)"
    unfolding r_def by (rule explanation_resolveVersion)
  have so: "sorted (map publishDate (futureCovering r))"
    unfolding r_def futureCovering_resolveVersion
    by (intro sorted_filter sorted_sortedVersions)
  have goal: "f \<in> set (futureCovering r)
      \<and> (\<forall>g\<in>set (futureCovering r). publishDate g \<le> publishDate f)
      \<and> (reason r = NO_VERSION_COVERS_TRAVEL_DATE \<longrightarrow>
           prefix (''Det fantes '' @ showNat (length (available r))
                     @ '' publiserte versjon(er) p'' @ aring @ '' '' @ kjopsdato)
             (explanation r)
           \<and> suffix ('' En nyere versjon ('' @ version f @ '', publisert ''
                       @ fmt (publishDate f)
                       @ '') ville ha dekket reisedatoen men var ikke tilgjengelig ved kj''
                       @ oslash @ ''p.'')
               (explanation r))
      \<and> (reason r = OK \<longrightarrow>
           suffix ('' En senere versjon ('' @ version f @ '', publisert ''
                     @ fmt (publishDate f)
                     @ '') ville ogs'' @ aring
                     @ '' dekke reisedatoen men var ikke publisert p'' @ aring @ '' ''
                     @ kjopsdato @ ''.'')
             (explanation r))"
    if ne: "futureCovering r \<noteq> []"
  proof (intro conjI impI)
    show "f \<in> set (futureCovering r)" using ne by (simp add: f_def)
    show "\<forall>g\<in>set (futureCovering r). publishDate g \<le> publishDate f"
      using last_greatest_publishDate[OF so] by (simp add: f_def)
  next
    assume re: "reason r = NO_VERSION_COVERS_TRAVEL_DATE"
    note e = buildExplanation_no_cover[OF ne, of fmt "match r" "candidates r" "available r"
        "toMillis pd" "toMillis td" "destructureInclusiveEnd opts", folded f_def]
    show "prefix (''Det fantes '' @ showNat (length (available r))
                     @ '' publiserte versjon(er) p'' @ aring @ '' '' @ kjopsdato)
             (explanation r)"
      unfolding ex re e by (simp add: prefix_def)
    show "suffix ('' En nyere versjon ('' @ version f @ '', publisert ''
                       @ fmt (publishDate f)
                       @ '') ville ha dekket reisedatoen men var ikke tilgjengelig ved kj''
                       @ oslash @ ''p.'')
               (explanation r)"
      unfolding ex re e by (simp add: futureAsideNoCover_def suffix_def)
  next
    assume re: "reason r = OK"
    then have "candidates r \<noteq> []"
      using reason_resolveVersion[of fmt versions pd td opts]
      by (auto simp: r_def split: if_splits)
    then obtain mv where mv: "match r = Some mv"
      using match_None_iff[of fmt versions pd td opts] by (auto simp: r_def)
    from buildExplanation_ok[OF ne, of fmt mv "candidates r" "available r"
        "toMillis pd" "toMillis td" "destructureInclusiveEnd opts", folded f_def]
    obtain pre where "explanation r = pre @ futureAsideOk fmt f"
      unfolding ex re mv by blast
    then show "suffix ('' En senere versjon ('' @ version f @ '', publisert ''
                     @ fmt (publishDate f)
                     @ '') ville ogs'' @ aring
                     @ '' dekke reisedatoen men var ikke publisert p'' @ aring @ '' ''
                     @ kjopsdato @ ''.'')
             (explanation r)"
      by (simp add: futureAsideOk_def suffix_def)
  qed
  show ?thesis
    unfolding Let_def r_def[symmetric] f_def[symmetric]
    using goal by blast
qed


theorem explanation_future_aside_witness:
  "futureCovering (resolveVersion fmtMillis (JsArray [v4w, v1, v4]) (Millis 150) (Millis 300)
      OptionsOmitted) = [v4, v4w]
   \<and> publishDate v4 < publishDate v4w
   \<and> reason (resolveVersion fmtMillis (JsArray [v4w, v1, v4]) (Millis 150) (Millis 300)
      OptionsOmitted) = NO_VERSION_COVERS_TRAVEL_DATE
   \<and> prefix (''Det fantes 1 publiserte versjon(er) p'' @ aring @ '' '' @ kjopsdato)
       (explanation (resolveVersion fmtMillis (JsArray [v4w, v1, v4]) (Millis 150) (Millis 300)
          OptionsOmitted))
   \<and> suffix ('' En nyere versjon (v4w, publisert 350)''
         @ '' ville ha dekket reisedatoen men var ikke tilgjengelig ved kj'' @ oslash @ ''p.'')
       (explanation (resolveVersion fmtMillis (JsArray [v4w, v1, v4]) (Millis 150) (Millis 300)
          OptionsOmitted))
   \<and> futureCovering (resolveVersion fmtMillis (JsArray [v3b, v3, v2, v1]) (Millis 160)
      (Millis 150) OptionsOmitted) = [v3, v3b]
   \<and> publishDate v3 < publishDate v3b
   \<and> reason (resolveVersion fmtMillis (JsArray [v3b, v3, v2, v1]) (Millis 160) (Millis 150)
      OptionsOmitted) = OK
   \<and> suffix ('' En senere versjon (v3b, publisert 180) ville ogs'' @ aring
         @ '' dekke reisedatoen men var ikke publisert p'' @ aring @ '' '' @ kjopsdato @ ''.'')
       (explanation (resolveVersion fmtMillis (JsArray [v3b, v3, v2, v1]) (Millis 160)
          (Millis 150) OptionsOmitted))"
proof -
  let ?r1 = "resolveVersion fmtMillis (JsArray [v4w, v1, v4]) (Millis 150) (Millis 300)
      OptionsOmitted"
  let ?r2 = "resolveVersion fmtMillis (JsArray [v3b, v3, v2, v1]) (Millis 160) (Millis 150)
      OptionsOmitted"
  have f1: "futureCovering ?r1 = [v4, v4w]" by (simp add: eval_defs v1_def v4_def v4w_def)
  have a1: "available ?r1 = [v1]" by (simp add: eval_defs v1_def v4_def v4w_def)
  have r1: "reason ?r1 = NO_VERSION_COVERS_TRAVEL_DATE"
    by (simp add: eval_defs v1_def v4_def v4w_def)
  have f2: "futureCovering ?r2 = [v3, v3b]"
    by (simp add: eval_defs v1_def v2_def v3_def v3b_def)
  have r2: "reason ?r2 = OK" by (simp add: eval_defs v1_def v2_def v3_def v3b_def)
  have lt: "publishDate v4 < publishDate v4w \<and> publishDate v3 < publishDate v3b"
    by (simp add: v3_def v3b_def v4_def v4w_def)
  have s4: "version v4w = ''v4w'' \<and> fmtMillis (publishDate v4w) = ''350''"
    by (simp add: v4w_def fmtMillis_def showInt_def showNat.simps digitChar_def)
  have s3: "version v3b = ''v3b'' \<and> fmtMillis (publishDate v3b) = ''180''"
    by (simp add: v3b_def fmtMillis_def showInt_def showNat.simps digitChar_def)
  have n1: "showNat (Suc 0) = ''1''" by (simp add: showNat.simps digitChar_def)
  note i1 = explanation_future_aside[of fmtMillis "JsArray [v4w, v1, v4]" "Millis 150"
      "Millis 300" OptionsOmitted, unfolded Let_def f1 a1 r1]
  note i2 = explanation_future_aside[of fmtMillis "JsArray [v3b, v3, v2, v1]" "Millis 160"
      "Millis 150" OptionsOmitted, unfolded Let_def f2 r2]
  from i1 s4 n1 have p1: "prefix (''Det fantes 1 publiserte versjon(er) p'' @ aring @ '' ''
      @ kjopsdato) (explanation ?r1)
    \<and> suffix ('' En nyere versjon (v4w, publisert 350)''
         @ '' ville ha dekket reisedatoen men var ikke tilgjengelig ved kj'' @ oslash @ ''p.'')
       (explanation ?r1)" by simp
  from i2 s3 have p2: "suffix ('' En senere versjon (v3b, publisert 180) ville ogs'' @ aring
         @ '' dekke reisedatoen men var ikke publisert p'' @ aring @ '' '' @ kjopsdato @ ''.'')
       (explanation ?r2)" by simp
  from f1 r1 p1 f2 r2 p2 lt show ?thesis by blast
qed

section \<open>Mutation and freshness\<close>

lemma preserves_refl: "preserves s s"
  by (simp add: preserves_def)

lemma preserves_trans: "preserves s s1 \<Longrightarrow> preserves s1 s2 \<Longrightarrow> preserves s s2"
  by (auto simp: preserves_def)

lemma newArray_facts:
  assumes "newArray rs s = (a, s')"
  shows "a = nextAddr s" and "nextAddr s' = Suc (nextAddr s)" and "preserves s s'"
    and "arrays s' a = Some rs" and "elems s' a = rs" and "objects s' = objects s"
  using assms by (auto simp: newArray_def preserves_def elems_def)

lemma filterArray_facts:
  assumes "filterArray P c s = (a, s')"
  shows "a = nextAddr s" and "nextAddr s' = Suc (nextAddr s)" and "preserves s s'"
    and "arrays s' a = Some (filter P (elems s c))" and "elems s' a = filter P (elems s c)"
    and "objects s' = objects s"
  using assms unfolding filterArray_def by (rule newArray_facts)+

lemma sortInPlace_facts:
  assumes "nextAddr s0 \<le> a" and "a < nextAddr s"
  shows "preserves s0 s \<Longrightarrow> preserves s0 (sortInPlace cmp a s)"
    and "nextAddr (sortInPlace cmp a s) = nextAddr s"
    and "objects (sortInPlace cmp a s) = objects s"
    and "elems (sortInPlace cmp a s) a = array_sort cmp (elems s a)"
    and "arrays (sortInPlace cmp a s) a \<noteq> None"
  using assms by (auto simp: sortInPlace_def preserves_def elems_def)

lemma elems_preserved:
  "preserves s s' \<Longrightarrow> a < nextAddr s \<Longrightarrow> elems s' a = elems s a"
  by (simp add: preserves_def elems_def)

lemma earlyReturn_facts:
  "let r = fst (earlyReturn fmt p t opts inclEnd s);
       s' = snd (earlyReturn fmt p t opts inclEnd s)
   in preserves s s' \<and> nextAddr s < nextAddr s'
      \<and> candidatesRef r = nextAddr s \<and> availableRef r = Suc (nextAddr s)
      \<and> futureCoveringRef r = Suc (Suc (nextAddr s))
      \<and> futureCoveringRef r < nextAddr s'
      \<and> arrays s' (candidatesRef r) = Some []
      \<and> arrays s' (availableRef r) = Some []
      \<and> arrays s' (futureCoveringRef r) = Some []
      \<and> matchRef r = None"
  by (simp add: earlyReturn_def newArray_def baseResultRefs_def preserves_def Let_def)

lemma runFacts_earlyReturn: "runFacts s (earlyReturn fmt p t opts inclEnd s)"
  using earlyReturn_facts[of fmt p t opts inclEnd s]
  unfolding runFacts_def Let_def by force

lemma runFacts_resolveVersion_st:
  "runFacts s (resolveVersion_st fmt versions pd td opts s)"
proof (cases versions)
  case NotAnArrayRef
  then show ?thesis
    by (simp add: resolveVersion_st_def Let_def runFacts_earlyReturn)
next
  case (ArrayRef v)
  show ?thesis
  proof (cases "elems s v = []")
    case True
    with ArrayRef show ?thesis
      by (simp add: resolveVersion_st_def Let_def runFacts_earlyReturn)
  next
    case False
    define c where "c = fst (newArray (elems s v) s)"
    define s1 where "s1 = snd (newArray (elems s v) s)"
    have n1: "newArray (elems s v) s = (c, s1)" by (simp add: c_def s1_def)
    define s2 where
      "s2 = sortInPlace (\<lambda>a b. cmpPublishDate (objects s1 a) (objects s1 b)) c s1"
    define P where "P = (\<lambda>r. publishDate (objects s2 r) \<le> toMillis pd)"
    define av where "av = fst (filterArray P c s2)"
    define s3 where "s3 = snd (filterArray P c s2)"
    have n3: "filterArray P c s2 = (av, s3)" by (simp add: av_def s3_def)
    define Q where "Q = (\<lambda>r. publishDate (objects s3 r) > toMillis pd
        \<and> inRange (destructureInclusiveEnd opts) (toMillis td) (objects s3 r))"
    define fu where "fu = fst (filterArray Q c s3)"
    define s4 where "s4 = snd (filterArray Q c s3)"
    have n4: "filterArray Q c s3 = (fu, s4)" by (simp add: fu_def s4_def)
    note f1 = newArray_facts[OF n1]
    have c_lo: "nextAddr s \<le> c" and c_hi: "c < nextAddr s1" using f1(1,2) by simp_all
    note f2 = sortInPlace_facts[OF c_lo c_hi, of "\<lambda>a b. cmpPublishDate (objects s1 a)
        (objects s1 b)", folded s2_def]
    have p2: "preserves s s2" using f2(1)[OF f1(3)] .
    have t2: "nextAddr s2 = Suc (nextAddr s)" using f2(2) f1(2) by simp
    note f3 = filterArray_facts[OF n3]
    have p3: "preserves s s3" using preserves_trans[OF p2 f3(3)] .
    have t3: "nextAddr s3 = Suc (Suc (nextAddr s))" using f3(2) t2 by simp
    have av_eq: "av = Suc (nextAddr s)" using f3(1) t2 by simp
    note f4 = filterArray_facts[OF n4]
    have p4: "preserves s s4" using preserves_trans[OF p3 f4(3)] .
    have t4: "nextAddr s4 = Suc (Suc (Suc (nextAddr s)))" using f4(2) t3 by simp
    have fu_eq: "fu = Suc (Suc (nextAddr s))" using f4(1) t3 by simp
    have av4: "arrays s4 av = arrays s3 av"
      using f4(3) av_eq t3 by (simp add: preserves_def)
    have av_alloc4: "arrays s4 av \<noteq> None" using av4 f3(4) by simp
    have fu_alloc4: "arrays s4 fu \<noteq> None" using f4(4) by simp
    show ?thesis
    proof (cases "elems s4 av = []")
      case True
      define c1 where "c1 = fst (newArray [] s4)"
      define s5 where "s5 = snd (newArray [] s4)"
      have n5: "newArray [] s4 = (c1, s5)" by (simp add: c1_def s5_def)
      define c2 where "c2 = fst (newArray [] s5)"
      define s6 where "s6 = snd (newArray [] s5)"
      have n6: "newArray [] s5 = (c2, s6)" by (simp add: c2_def s6_def)
      have res: "resolveVersion_st fmt versions pd td opts s =
          (baseResultRefs None c1 av fu (toMillis pd) (toMillis td) opts NO_AVAILABLE_VERSIONS
             (explainRefs fmt s6 None c2 av fu (toMillis pd) (toMillis td)
                NO_AVAILABLE_VERSIONS (destructureInclusiveEnd opts)), s6)"
        using False True
        by (simp add: resolveVersion_st_def ArrayRef Let_def n1 s2_def[symmetric]
            P_def[symmetric] n3 Q_def[symmetric] n4 n5 n6)
      note f5 = newArray_facts[OF n5]
      note f6 = newArray_facts[OF n6]
      have p6: "preserves s s6"
        using preserves_trans[OF preserves_trans[OF p4 f5(3)] f6(3)] .
      have t6: "nextAddr s6 = Suc (Suc (Suc (Suc (Suc (nextAddr s)))))" using f6(2) f5(2) t4 by simp
      have c1_eq: "c1 = Suc (Suc (Suc (nextAddr s)))" using f5(1) t4 by simp
      have pres56: "preserves s4 s6" using preserves_trans[OF f5(3) f6(3)] .
      have a1: "arrays s6 c1 \<noteq> None"
        using f6(3) f5(4) f5(1) f5(2) by (simp add: preserves_def)
      have a2: "arrays s6 av \<noteq> None"
        using pres56 av_alloc4 av_eq t4 by (simp add: preserves_def)
      have a3: "arrays s6 fu \<noteq> None"
        using pres56 fu_alloc4 fu_eq t4 by (simp add: preserves_def)
      show ?thesis
        unfolding res runFacts_def Let_def
        using p6 t6 c1_eq av_eq fu_eq a1 a2 a3
        by (simp add: baseResultRefs_def)
    next
      case ne: False
      define R where "R = (\<lambda>r. inRange (destructureInclusiveEnd opts) (toMillis td)
          (objects s4 r))"
      define ca where "ca = fst (filterArray R av s4)"
      define s5 where "s5 = snd (filterArray R av s4)"
      have n5: "filterArray R av s4 = (ca, s5)" by (simp add: ca_def s5_def)
      note f5 = filterArray_facts[OF n5]
      have p5: "preserves s s5" using preserves_trans[OF p4 f5(3)] .
      have t5: "nextAddr s5 = Suc (Suc (Suc (Suc (nextAddr s))))" using f5(2) t4 by simp
      have ca_eq: "ca = Suc (Suc (Suc (nextAddr s)))" using f5(1) t4 by simp
      have a1: "arrays s5 ca \<noteq> None" using f5(4) by simp
      have a2: "arrays s5 av \<noteq> None"
        using f5(3) av_alloc4 av_eq t4 by (simp add: preserves_def)
      have a3: "arrays s5 fu \<noteq> None"
        using f5(3) fu_alloc4 fu_eq t4 by (simp add: preserves_def)
      have res: "snd (resolveVersion_st fmt versions pd td opts s) = s5
          \<and> candidatesRef (fst (resolveVersion_st fmt versions pd td opts s)) = ca
          \<and> availableRef (fst (resolveVersion_st fmt versions pd td opts s)) = av
          \<and> futureCoveringRef (fst (resolveVersion_st fmt versions pd td opts s)) = fu"
        using False ne
        by (simp add: resolveVersion_st_def ArrayRef Let_def n1 s2_def[symmetric]
            P_def[symmetric] n3 Q_def[symmetric] n4 R_def[symmetric] n5 baseResultRefs_def)
      show ?thesis
        unfolding runFacts_def Let_def
        using res p5 t5 ca_eq av_eq fu_eq a1 a2 a3
        by simp
    qed
  qed
qed

lemma map_insertBy:
  "map f (insertBy (\<lambda>a b. cmp (f a) (f b)) x ys) = insertBy cmp (f x) (map f ys)"
  by (induction ys) simp_all

lemma map_array_sort:
  "map f (array_sort (\<lambda>a b. cmp (f a) (f b)) xs) = array_sort cmp (map f xs)"
  by (induction xs) (simp_all add: array_sort_def map_insertBy)

lemma map_option_foldl_pick:
  "map_option f (foldl (\<lambda>acc cur.
       case acc of
         None \<Rightarrow> Some cur
       | Some a \<Rightarrow>
           if publishDate (f cur) > publishDate (f a) then Some cur
           else if publishDate (f cur) = publishDate (f a) \<and> open (f cur) > open (f a)
           then Some cur
           else Some a) acc rs)
   = foldl pickNewer (map_option f acc) (map f rs)"
  by (induction rs arbitrary: acc) (auto simp: pickNewer_def split: option.splits)

lemma map_filter_deref: "map f (filter (\<lambda>r. P (f r)) xs) = filter P (map f xs)"
  by (induction xs) simp_all

lemma absResult_earlyReturn:
  "absResult (snd (earlyReturn fmt p t opts inclEnd s)) (fst (earlyReturn fmt p t opts inclEnd s))
     = baseResult None [] [] [] p t opts NO_AVAILABLE_VERSIONS
         (buildExplanation fmt (None :: 'a ver option) [] [] [] p t NO_AVAILABLE_VERSIONS inclEnd)"
  by (simp add: earlyReturn_def newArray_def baseResultRefs_def baseResult_def absResult_def
      explainRefs_def elems_def buildExplanation_def Let_def)


lemma resolveVersion_st_refines:
  "absResult (snd (resolveVersion_st fmt versions pd td opts s))
      (fst (resolveVersion_st fmt versions pd td opts s))
     = resolveVersion fmt (absVersions s versions) pd td opts"
proof (cases versions)
  case NotAnArrayRef
  then show ?thesis
    by (simp add: resolveVersion_st_def resolveVersion_def absVersions_def Let_def
        absResult_earlyReturn)
next
  case (ArrayRef v)
  show ?thesis
  proof (cases "elems s v = []")
    case True
    with ArrayRef show ?thesis
      by (auto simp: resolveVersion_st_def resolveVersion_def absVersions_def Let_def
          absResult_earlyReturn elems_def split: option.splits)
  next
    case False
    then obtain rs where rs: "arrays s v = Some rs" and rs_ne: "rs \<noteq> []"
      by (auto simp: elems_def split: option.splits)
    have el: "elems s v = rs" using rs by (simp add: elems_def)
    have absv: "absVersions s versions = JsArray (map (objects s) rs)"
      using ArrayRef rs by (simp add: absVersions_def)
    define c where "c = fst (newArray (elems s v) s)"
    define s1 where "s1 = snd (newArray (elems s v) s)"
    have n1: "newArray (elems s v) s = (c, s1)" by (simp add: c_def s1_def)
    define s2 where
      "s2 = sortInPlace (\<lambda>a b. cmpPublishDate (objects s1 a) (objects s1 b)) c s1"
    define P where "P = (\<lambda>r. publishDate (objects s2 r) \<le> toMillis pd)"
    define av where "av = fst (filterArray P c s2)"
    define s3 where "s3 = snd (filterArray P c s2)"
    have n3: "filterArray P c s2 = (av, s3)" by (simp add: av_def s3_def)
    define Q where "Q = (\<lambda>r. publishDate (objects s3 r) > toMillis pd
        \<and> inRange (destructureInclusiveEnd opts) (toMillis td) (objects s3 r))"
    define fu where "fu = fst (filterArray Q c s3)"
    define s4 where "s4 = snd (filterArray Q c s3)"
    have n4: "filterArray Q c s3 = (fu, s4)" by (simp add: fu_def s4_def)
    note f1 = newArray_facts[OF n1]
    have c_lo: "nextAddr s \<le> c" and c_hi: "c < nextAddr s1" using f1(1,2) by simp_all
    note f2 = sortInPlace_facts[OF c_lo c_hi, of "\<lambda>a b. cmpPublishDate (objects s1 a)
        (objects s1 b)", folded s2_def]
    have t2: "nextAddr s2 = Suc (nextAddr s)" using f2(2) f1(2) by simp
    note f3 = filterArray_facts[OF n3]
    have t3: "nextAddr s3 = Suc (Suc (nextAddr s))" using f3(2) t2 by simp
    have av_eq: "av = Suc (nextAddr s)" using f3(1) t2 by simp
    note f4 = filterArray_facts[OF n4]
    have t4: "nextAddr s4 = Suc (Suc (Suc (nextAddr s)))" using f4(2) t3 by simp
    have fu_eq: "fu = Suc (Suc (nextAddr s))" using f4(1) t3 by simp
    have o1: "objects s1 = objects s" by (rule f1(6))
    have o2: "objects s2 = objects s" using f2(3) o1 by simp
    have o3: "objects s3 = objects s" using f3(6) o2 by simp
    have o4: "objects s4 = objects s" using f4(6) o3 by simp
    define srt where "srt = array_sort cmpPublishDate (map (objects s) rs)"
    have e2: "map (objects s) (elems s2 c) = srt"
      using f2(4) f1(5) el by (simp add: o1 map_array_sort srt_def)
    have e3c: "elems s3 c = elems s2 c"
      using elems_preserved[OF f3(3)] f1(1) t2 by simp
    have e3: "map (objects s) (elems s3 av) = filter (\<lambda>v. publishDate v \<le> toMillis pd) srt"
    proof -
      have "elems s3 av = filter (\<lambda>r. publishDate (objects s r) \<le> toMillis pd) (elems s2 c)"
        using f3(5) by (simp add: P_def o2)
      then have "map (objects s) (elems s3 av) =
          filter (\<lambda>v. publishDate v \<le> toMillis pd) (map (objects s) (elems s2 c))"
        by (simp only: map_filter_deref[of "objects s" "\<lambda>v. publishDate v \<le> toMillis pd"])
      then show ?thesis by (simp only: e2)
    qed
    have e4av: "elems s4 av = elems s3 av"
      using elems_preserved[OF f4(3)] av_eq t3 by simp
    have e4: "map (objects s) (elems s4 fu) =
        filter (\<lambda>v. publishDate v > toMillis pd
                  \<and> inRange (destructureInclusiveEnd opts) (toMillis td) v) srt"
    proof -
      have "elems s4 fu = filter (\<lambda>r. publishDate (objects s r) > toMillis pd
          \<and> inRange (destructureInclusiveEnd opts) (toMillis td) (objects s r)) (elems s2 c)"
        using f4(5) e3c by (simp add: Q_def o3)
      then have "map (objects s) (elems s4 fu) =
          filter (\<lambda>v. publishDate v > toMillis pd
                  \<and> inRange (destructureInclusiveEnd opts) (toMillis td) v)
            (map (objects s) (elems s2 c))"
        by (simp only: map_filter_deref[of "objects s" "\<lambda>v. publishDate v > toMillis pd
                  \<and> inRange (destructureInclusiveEnd opts) (toMillis td) v"])
      then show ?thesis by (simp only: e2)
    qed
    have avail_abs: "map (objects s) (elems s4 av)
        = filter (\<lambda>v. publishDate v \<le> toMillis pd) srt"
      using e3 e4av by simp
    show ?thesis
    proof (cases "elems s4 av = []")
      case True
      define c1 where "c1 = fst (newArray [] s4)"
      define s5 where "s5 = snd (newArray [] s4)"
      have n5: "newArray [] s4 = (c1, s5)" by (simp add: c1_def s5_def)
      define c2 where "c2 = fst (newArray [] s5)"
      define s6 where "s6 = snd (newArray [] s5)"
      have n6: "newArray [] s5 = (c2, s6)" by (simp add: c2_def s6_def)
      have res: "resolveVersion_st fmt versions pd td opts s =
          (baseResultRefs None c1 av fu (toMillis pd) (toMillis td) opts NO_AVAILABLE_VERSIONS
             (explainRefs fmt s6 None c2 av fu (toMillis pd) (toMillis td)
                NO_AVAILABLE_VERSIONS (destructureInclusiveEnd opts)), s6)"
        using False True
        by (simp add: resolveVersion_st_def ArrayRef Let_def n1 s2_def[symmetric]
            P_def[symmetric] n3 Q_def[symmetric] n4 n5 n6)
      note f5 = newArray_facts[OF n5]
      note f6 = newArray_facts[OF n6]
      have p46: "preserves s4 s6" using preserves_trans[OF f5(3) f6(3)] .
      have o6: "objects s6 = objects s" using f6(6) f5(6) o4 by simp
      have x1: "elems s6 c1 = []"
        using elems_preserved[OF f6(3), of c1] f5(1,2,5) by simp
      have x2: "elems s6 c2 = []" by (rule f6(5))
      have x3: "elems s6 av = elems s4 av"
        using elems_preserved[OF p46] av_eq t4 by simp
      have x4: "elems s6 fu = elems s4 fu"
        using elems_preserved[OF p46] fu_eq t4 by simp
      have avnil: "filter (\<lambda>v. publishDate v \<le> toMillis pd) srt = []"
        using avail_abs True by simp
      show ?thesis
        unfolding res absv
        using rs_ne avnil
        by (simp add: absResult_def baseResultRefs_def explainRefs_def resolveVersion_def
            baseResult_def Let_def o6 x1 x2 x3 x4 True e4[unfolded srt_def]
            srt_def[symmetric] buildExplanation_def)
    next
      case ne: False
      define R where "R = (\<lambda>r. inRange (destructureInclusiveEnd opts) (toMillis td)
          (objects s4 r))"
      define ca where "ca = fst (filterArray R av s4)"
      define s5 where "s5 = snd (filterArray R av s4)"
      have n5: "filterArray R av s4 = (ca, s5)" by (simp add: ca_def s5_def)
      note f5 = filterArray_facts[OF n5]
      have o5: "objects s5 = objects s" using f5(6) o4 by simp
      have x1: "map (objects s) (elems s5 ca) =
          filter (inRange (destructureInclusiveEnd opts) (toMillis td))
            (filter (\<lambda>v. publishDate v \<le> toMillis pd) srt)"
      proof -
        have "elems s5 ca = filter (\<lambda>r. inRange (destructureInclusiveEnd opts) (toMillis td)
            (objects s r)) (elems s4 av)"
          using f5(5) by (simp add: R_def o4)
        then have "map (objects s) (elems s5 ca) =
            filter (inRange (destructureInclusiveEnd opts) (toMillis td))
              (map (objects s) (elems s4 av))"
          by (simp only: map_filter_deref[of "objects s"
                "inRange (destructureInclusiveEnd opts) (toMillis td)"])
        then show ?thesis by (simp only: avail_abs)
      qed
      have x3: "elems s5 av = elems s4 av"
        using elems_preserved[OF f5(3)] av_eq t4 by simp
      have x4: "elems s5 fu = elems s4 fu"
        using elems_preserved[OF f5(3)] fu_eq t4 by simp
      have avne: "filter (\<lambda>v. publishDate v \<le> toMillis pd) srt \<noteq> []"
        using avail_abs ne by (metis map_is_Nil_conv)
      show ?thesis
      proof (cases "elems s5 ca = []")
        case True
        have res: "resolveVersion_st fmt versions pd td opts s =
            (baseResultRefs None ca av fu (toMillis pd) (toMillis td) opts
               NO_VERSION_COVERS_TRAVEL_DATE
               (explainRefs fmt s5 None ca av fu (toMillis pd) (toMillis td)
                  NO_VERSION_COVERS_TRAVEL_DATE (destructureInclusiveEnd opts)), s5)"
          using False ne True
          by (simp add: resolveVersion_st_def ArrayRef Let_def n1 s2_def[symmetric]
              P_def[symmetric] n3 Q_def[symmetric] n4 R_def[symmetric] n5)
        have canil: "filter (inRange (destructureInclusiveEnd opts) (toMillis td))
            (filter (\<lambda>v. publishDate v \<le> toMillis pd) srt) = []"
          using x1 True by simp
        show ?thesis
          unfolding res absv
          using rs_ne avne canil
          by (simp add: absResult_def baseResultRefs_def explainRefs_def resolveVersion_def
              baseResult_def Let_def o5 True x3 x4 avail_abs e4 srt_def[symmetric])
      next
        case cne: False
        define m where "m = foldl (\<lambda>acc cur.
             case acc of
               None \<Rightarrow> Some cur
             | Some a \<Rightarrow>
                 if publishDate (objects s5 cur) > publishDate (objects s5 a)
                 then Some cur
                 else if publishDate (objects s5 cur) = publishDate (objects s5 a)
                    \<and> open (objects s5 cur) > open (objects s5 a)
                 then Some cur
                 else Some a)
           None (elems s5 ca)"
        have res: "resolveVersion_st fmt versions pd td opts s =
            (baseResultRefs m ca av fu (toMillis pd) (toMillis td) opts OK
               (explainRefs fmt s5 m ca av fu (toMillis pd) (toMillis td) OK
                  (destructureInclusiveEnd opts)), s5)"
          using False ne cne
          by (simp add: resolveVersion_st_def ArrayRef Let_def n1 s2_def[symmetric]
              P_def[symmetric] n3 Q_def[symmetric] n4 R_def[symmetric] n5 m_def[symmetric])
        have mabs: "map_option (objects s) m =
            foldl pickNewer None (map (objects s) (elems s5 ca))"
          unfolding m_def o5
          using map_option_foldl_pick[of "objects s" None "elems s5 ca"] by simp
        have cane: "filter (inRange (destructureInclusiveEnd opts) (toMillis td))
            (filter (\<lambda>v. publishDate v \<le> toMillis pd) srt) \<noteq> []"
          using x1 cne by (metis map_is_Nil_conv)
        show ?thesis
          unfolding res absv
          using rs_ne avne cane
          by (simp add: absResult_def baseResultRefs_def explainRefs_def resolveVersion_def
              baseResult_def Let_def o5 mabs x1 x3 x4 avail_abs e4 srt_def[symmetric])
      qed
    qed
  qed
qed

text \<open>The store can tell: sorting the array of \<open>store0\<close> in place, without the copy, changes it.\<close>

lemma sortInPlace_changes_array:
  "arrays (sortInPlace (\<lambda>a b. cmpPublishDate (objects store0 a) (objects store0 b)) 5 store0) 5
     = Some [2, 1, 0]"
  by (simp add: sortInPlace_def store0_def elems_def array_sort_def cmpPublishDate_def
      v1_def v2_def v3_def)

text \<open>
  Claim C8. Run on a store whose free addresses hold no array, \<^verbatim>\<open>resolveVersion\<close> writes
  to no version record and leaves every array that existed before the call as it was,
  the \<^verbatim>\<open>versions\<close> array among them (only the copy is sorted); the three arrays of the
  result are new, pairwise different arrays; and the result denotes what the pure
  function computes from the contents of \<^verbatim>\<open>versions\<close>.
\<close>

theorem resolveVersion_frame:
  "wf_store s \<Longrightarrow>
   (let out = resolveVersion_st fmt versions pd td opts s;
        r = fst out;
        s' = snd out
    in objects s' = objects s
       \<and> (\<forall>a rs. arrays s a = Some rs \<longrightarrow> arrays s' a = Some rs)
       \<and> arrays s (candidatesRef r) = None \<and> arrays s' (candidatesRef r) \<noteq> None
       \<and> arrays s (availableRef r) = None \<and> arrays s' (availableRef r) \<noteq> None
       \<and> arrays s (futureCoveringRef r) = None \<and> arrays s' (futureCoveringRef r) \<noteq> None
       \<and> distinct [candidatesRef r, availableRef r, futureCoveringRef r]
       \<and> wf_store s'
       \<and> absResult s' r = resolveVersion fmt (absVersions s versions) pd td opts)"
proof -
  assume wf: "wf_store s"
  define r where "r = fst (resolveVersion_st fmt versions pd td opts s)"
  define s' where "s' = snd (resolveVersion_st fmt versions pd td opts s)"
  have facts: "preserves s s'" "nextAddr s < nextAddr s'"
    "nextAddr s \<le> candidatesRef r" "candidatesRef r < nextAddr s'"
    "nextAddr s \<le> availableRef r" "availableRef r < nextAddr s'"
    "nextAddr s \<le> futureCoveringRef r" "futureCoveringRef r < nextAddr s'"
    "candidatesRef r \<noteq> availableRef r" "candidatesRef r \<noteq> futureCoveringRef r"
    "availableRef r \<noteq> futureCoveringRef r"
    "arrays s' (candidatesRef r) \<noteq> None" "arrays s' (availableRef r) \<noteq> None"
    "arrays s' (futureCoveringRef r) \<noteq> None"
    using runFacts_resolveVersion_st[of s fmt versions pd td opts]
    unfolding runFacts_def Let_def r_def s'_def by blast+
  have ob: "objects s' = objects s" using facts(1) by (simp add: preserves_def)
  have old: "arrays s' a = Some rs" if "arrays s a = Some rs" for a rs
  proof -
    from that wf have "a < nextAddr s" unfolding wf_store_def by (metis not_le option.distinct(1))
    with facts(1) that show ?thesis by (simp add: preserves_def)
  qed
  have fresh: "arrays s a = None" if "nextAddr s \<le> a" for a
    using wf that by (simp add: wf_store_def)
  have wf': "wf_store s'"
    unfolding wf_store_def
  proof (intro allI impI)
    fix a assume "nextAddr s' \<le> a"
    with facts(1,2) have "arrays s' a = arrays s a" and "nextAddr s \<le> a"
      by (simp_all add: preserves_def)
    with fresh show "arrays s' a = None" by simp
  qed
  have abs: "absResult s' r = resolveVersion fmt (absVersions s versions) pd td opts"
    unfolding r_def s'_def by (rule resolveVersion_st_refines)
  show ?thesis
    unfolding Let_def r_def[symmetric] s'_def[symmetric]
    using ob old fresh[OF facts(3)] fresh[OF facts(5)] fresh[OF facts(7)]
      facts(9-14) wf' abs
    by simp
qed

theorem resolveVersion_frame_witness:
  "wf_store store0 \<and> arrays store0 5 = Some [0, 1, 2]
   \<and> arrays (snd (resolveVersion_st fmtMillis (ArrayRef 5) (Millis 160) (Millis 150)
        OptionsOmitted store0)) 5 = Some [0, 1, 2]
   \<and> objects (snd (resolveVersion_st fmtMillis (ArrayRef 5) (Millis 160) (Millis 150)
        OptionsOmitted store0)) = objects store0
   \<and> available (absResult
        (snd (resolveVersion_st fmtMillis (ArrayRef 5) (Millis 160) (Millis 150)
           OptionsOmitted store0))
        (fst (resolveVersion_st fmtMillis (ArrayRef 5) (Millis 160) (Millis 150)
           OptionsOmitted store0))) = [v1, v2]"
proof -
  have wf: "wf_store store0" by (simp add: wf_store_def store0_def)
  have a5: "arrays store0 5 = Some [0, 1, 2]" by (simp add: store0_def)
  have av: "absVersions store0 (ArrayRef 5) = JsArray [v3, v2, v1]"
    by (simp add: absVersions_def store0_def)
  have pure: "available (resolveVersion fmtMillis (JsArray [v3, v2, v1]) (Millis 160)
      (Millis 150) OptionsOmitted) = [v1, v2]"
    by (simp add: eval_defs v1_def v2_def v3_def)
  note inst = resolveVersion_frame[OF wf, of fmtMillis "ArrayRef 5" "Millis 160" "Millis 150"
      OptionsOmitted, unfolded Let_def av]
  from inst a5 have k: "arrays (snd (resolveVersion_st fmtMillis (ArrayRef 5) (Millis 160)
      (Millis 150) OptionsOmitted store0)) 5 = Some [0, 1, 2]" by blast
  from inst have o: "objects (snd (resolveVersion_st fmtMillis (ArrayRef 5) (Millis 160)
      (Millis 150) OptionsOmitted store0)) = objects store0" by blast
  from inst have "absResult
        (snd (resolveVersion_st fmtMillis (ArrayRef 5) (Millis 160) (Millis 150)
           OptionsOmitted store0))
        (fst (resolveVersion_st fmtMillis (ArrayRef 5) (Millis 160) (Millis 150)
           OptionsOmitted store0))
      = resolveVersion fmtMillis (JsArray [v3, v2, v1]) (Millis 160) (Millis 150)
          OptionsOmitted" by blast
  with pure have p: "available (absResult
        (snd (resolveVersion_st fmtMillis (ArrayRef 5) (Millis 160) (Millis 150)
           OptionsOmitted store0))
        (fst (resolveVersion_st fmtMillis (ArrayRef 5) (Millis 160) (Millis 150)
           OptionsOmitted store0))) = [v1, v2]" by simp
  from wf a5 k o p show ?thesis by blast
qed

section \<open>Empty and malformed versions\<close>








end
